theory Spec2Isabelle
  imports Complex_Main "HOL-Library.Sublist"
begin

section \<open>JavaScript strings\<close>

text \<open>
  The handlers of the server (the routes registered in
  \<^verbatim>\<open>client/src/components/ContentPreviewPanel.tsx\<close>) work on JavaScript strings.
  A string is modelled as a \<^typ>\<open>string\<close>, every \<^typ>\<open>char\<close> standing for one
  code unit below 256, so that \<^term>\<open>length\<close> is the \<^verbatim>\<open>.length\<close> of the source.
\<close>

definition white_space :: "char set" where
  \<comment> \<open>what \<^verbatim>\<open>\s\<close> and \<^verbatim>\<open>trim()\<close> take for white space, among the code units below 256\<close>
  "white_space = {CHR 0x09, CHR 0x0A, CHR 0x0B, CHR 0x0C, CHR 0x0D, CHR '' '', CHR 0xA0}"

definition line_terminator :: "char set" where
  \<comment> \<open>the characters \<^verbatim>\<open>.\<close> refuses and at which \<^verbatim>\<open>^\<close> and \<^verbatim>\<open>$\<close> match under the flag \<^verbatim>\<open>m\<close>\<close>
  "line_terminator = {CHR 0x0A, CHR 0x0D}"

fun js_includes :: "string \<Rightarrow> string \<Rightarrow> bool" where
  \<comment> \<open>\<^verbatim>\<open>s.includes(sub)\<close>\<close>
  "js_includes [] sub = (sub = [])"
| "js_includes (c # cs) sub = (prefix sub (c # cs) \<or> js_includes cs sub)"

fun toLowerCase_char :: "char \<Rightarrow> char" where
  "toLowerCase_char (Char b0 b1 b2 b3 b4 b5 b6 b7) =
     (let n = (of_char (Char b0 b1 b2 b3 b4 b5 b6 b7) :: nat)
      in if (65 \<le> n \<and> n \<le> 90) \<or> (192 \<le> n \<and> n \<le> 222 \<and> n \<noteq> 215)
         then Char b0 b1 b2 b3 b4 True b6 b7
         else Char b0 b1 b2 b3 b4 b5 b6 b7)"

definition toLowerCase :: "string \<Rightarrow> string" where
  "toLowerCase s = map toLowerCase_char s"

definition trimStart :: "string \<Rightarrow> string" where
  "trimStart s = dropWhile (\<lambda>c. c \<in> white_space) s"

definition trim :: "string \<Rightarrow> string" where
  "trim s = rev (trimStart (rev (trimStart s)))"

section \<open>Regular expressions\<close>

datatype tok =
    Ch "char set"
  | Rep "char set" nat "nat option"
  | Bol
  | Eol
  | Open
  | Close
  | Alt "tok list" "tok list"
  | NegLook "tok list"

fun weight :: "tok \<Rightarrow> nat" where
  "weight (Alt a b) = Suc (sum_list (map weight a) + sum_list (map weight b))"
| "weight (NegLook a) = Suc (sum_list (map weight a))"
| "weight _ = 1"

type_synonym groups = "(nat \<times> nat) list"

function (sequential) rx ::
  "bool \<Rightarrow> tok list \<Rightarrow> char option \<Rightarrow> string \<Rightarrow> nat \<Rightarrow> nat list \<Rightarrow> groups \<Rightarrow> (nat \<times> groups) option" where
  "rx m [] p s n os gs = Some (n, gs)"
| "rx m (Ch A # ts) p [] n os gs = None"
| "rx m (Ch A # ts) p (c # s) n os gs =
     (if c \<in> A then rx m ts (Some c) s (Suc n) os gs else None)"
| "rx m (Rep A lo hi # ts) p [] n os gs =
     (if lo = 0 then rx m ts p [] n os gs else None)"
| "rx m (Rep A lo hi # ts) p (c # s) n os gs =
     (if c \<in> A \<and> hi \<noteq> Some 0
      then (case rx m (Rep A (lo - 1) (map_option (\<lambda>h. h - 1) hi) # ts) (Some c) s (Suc n) os gs of
              Some r \<Rightarrow> Some r
            | None \<Rightarrow> if lo = 0 then rx m ts p (c # s) n os gs else None)
      else if lo = 0 then rx m ts p (c # s) n os gs else None)"
| "rx m (Bol # ts) p s n os gs =
     (if (case p of None \<Rightarrow> True | Some c \<Rightarrow> m \<and> c \<in> line_terminator)
      then rx m ts p s n os gs else None)"
| "rx m (Eol # ts) p s n os gs =
     (if (case s of [] \<Rightarrow> True | c # _ \<Rightarrow> m \<and> c \<in> line_terminator)
      then rx m ts p s n os gs else None)"
| "rx m (Open # ts) p s n os gs = rx m ts p s n (n # os) gs"
| "rx m (Close # ts) p s n [] gs = None"
| "rx m (Close # ts) p s n (b # os) gs = rx m ts p s n os (gs @ [(b, n)])"
| "rx m (Alt a b # ts) p s n os gs =
     (case rx m (a @ ts) p s n os gs of
        Some r \<Rightarrow> Some r
      | None \<Rightarrow> rx m (b @ ts) p s n os gs)"
| "rx m (NegLook a # ts) p s n os gs =
     (case rx m a p s n os gs of
        Some r \<Rightarrow> None
      | None \<Rightarrow> rx m ts p s n os gs)"
  by pat_completeness auto
termination
  by (relation "inv_image (less_than <*lex*> less_than)
        (\<lambda>(m, ts, p, s, n, os, gs). (sum_list (map weight ts), length s))") auto

record regex =
  toks :: "tok list"
  multiline :: bool

definition exec_at :: "regex \<Rightarrow> char option \<Rightarrow> string \<Rightarrow> (nat \<times> string list) option" where
  "exec_at re p s =
     map_option (\<lambda>(n, gs). (n, map (\<lambda>(b, e). take (e - b) (drop b s)) gs))
       (rx (multiline re) (toks re) p s 0 [] [])"

definition lit :: "string \<Rightarrow> tok list" where
  "lit s = map (\<lambda>c. Ch {c}) s"

definition imagePattern :: regex where
  "imagePattern = \<lparr>toks = lit ''!['' @ [Open, Rep (- {CHR '']''}) 0 None, Close] @ lit ''](''
      @ [Open, Rep (- {CHR '')''}) 1 None, Close] @ lit '')'', multiline = False\<rparr>"


function replaceWith ::
  "regex \<Rightarrow> (string \<Rightarrow> string list \<Rightarrow> 'st \<Rightarrow> string \<times> 'st) \<Rightarrow> 'st \<Rightarrow> char option \<Rightarrow> string
     \<Rightarrow> string \<times> 'st" where
  "replaceWith re f st p [] =
     (case exec_at re p [] of
        None \<Rightarrow> ([], st)
      | Some (n, gs) \<Rightarrow> f [] gs st)"
| "replaceWith re f st p (c # s) =
     (case exec_at re p (c # s) of
        None \<Rightarrow> (case replaceWith re f st (Some c) s of (out, st') \<Rightarrow> (c # out, st'))
      | Some (n, gs) \<Rightarrow>
          (case f (take n (c # s)) gs st of (rep, st') \<Rightarrow>
             if n = 0
             then (case replaceWith re f st' (Some c) s of (out, st'') \<Rightarrow> (rep @ c # out, st''))
             else (case replaceWith re f st' (Some (last (take n (c # s)))) (drop n (c # s)) of
                     (out, st'') \<Rightarrow> (rep @ out, st''))))"
  by pat_completeness auto
termination
  by (relation "measure (\<lambda>(re, f, st, p, s). length s)") auto

definition replaceAll :: "regex \<Rightarrow> (string list \<Rightarrow> string) \<Rightarrow> string \<Rightarrow> string" where
  "replaceAll re template s = fst (replaceWith re (\<lambda>m gs u. (template gs, u)) () None s)"

fun search :: "regex \<Rightarrow> char option \<Rightarrow> string \<Rightarrow> (nat \<times> nat \<times> string list) option" where
  "search re p [] = map_option (\<lambda>(n, gs). (0, n, gs)) (exec_at re p [])"
| "search re p (c # s) =
     (case exec_at re p (c # s) of
        Some (n, gs) \<Rightarrow> Some (0, n, gs)
      | None \<Rightarrow> map_option (\<lambda>(i, n, gs). (Suc i, n, gs)) (search re (Some c) s))"

definition js_match :: "regex \<Rightarrow> string \<Rightarrow> string list option" where
  "js_match re s = map_option (\<lambda>(i, n, gs). gs) (search re None s)"

definition replaceFirst :: "regex \<Rightarrow> (string list \<Rightarrow> string) \<Rightarrow> string \<Rightarrow> string" where
  "replaceFirst re template s =
     (case search re None s of
        None \<Rightarrow> s
      | Some (i, n, gs) \<Rightarrow> take i s @ template gs @ drop (i + n) s)"

function split_loop :: "regex \<Rightarrow> string \<Rightarrow> char option \<Rightarrow> string \<Rightarrow> string list" where
  "split_loop re cur p [] = [rev cur]"
| "split_loop re cur p (c # s) =
     (case exec_at re p (c # s) of
        None \<Rightarrow> split_loop re (c # cur) (Some c) s
      | Some (n, gs) \<Rightarrow>
          if n = 0
          then (if cur = [] then split_loop re [c] (Some c) s
                else rev cur # gs @ split_loop re [c] (Some c) s)
          else rev cur # gs @ split_loop re [] (Some (last (take n (c # s)))) (drop n (c # s)))"
  by pat_completeness auto
termination
  by (relation "measure (\<lambda>(re, cur, p, s). length s)") auto

definition splitRegex :: "regex \<Rightarrow> string \<Rightarrow> string list" where
  "splitRegex re s =
     (if s = [] then (if exec_at re None [] = None then [[]] else [])
      else split_loop re [] None s)"

function split_sep :: "string \<Rightarrow> string \<Rightarrow> string \<Rightarrow> string list" where
  "split_sep sep cur [] = [rev cur]"
| "split_sep sep cur (c # s) =
     (if sep \<noteq> [] \<and> prefix sep (c # s)
      then rev cur # split_sep sep [] (drop (length sep) (c # s))
      else split_sep sep (c # cur) s)"
  by pat_completeness auto
termination
  by (relation "measure (\<lambda>(sep, cur, s). length s)") auto

definition split :: "string \<Rightarrow> string \<Rightarrow> string list" where
  "split sep s = split_sep sep [] s"

fun join :: "string \<Rightarrow> string list \<Rightarrow> string" where
  "join sep [] = []"
| "join sep [x] = x"
| "join sep (x # y # ys) = x @ sep @ join sep (y # ys)"

definition grp :: "string list \<Rightarrow> nat \<Rightarrow> string" where
  "grp gs i = (if i < length gs then gs ! i else [])"

definition toUpperCase_char :: "char \<Rightarrow> char" where
  "toUpperCase_char c = (if c \<in> set ''abcdefghijklmnopqrstuvwxyz''
     then (case c of Char b0 b1 b2 b3 b4 b5 b6 b7 \<Rightarrow> Char b0 b1 b2 b3 b4 False b6 b7) else c)"

definition lit_i :: "string \<Rightarrow> tok list" where
  "lit_i s = map (\<lambda>c. Ch {toLowerCase_char c, toUpperCase_char c}) s"

definition photoByPattern :: regex where
  "photoByPattern = \<lparr>toks = lit ''*Photo by'' @ [Rep (- {CHR ''*''}) 0 None] @ lit ''*'',
     multiline = False\<rparr>"

definition unsplashCaptionPattern :: regex where
  "unsplashCaptionPattern = \<lparr>toks = lit ''*'' @ [Rep (- {CHR ''*''}) 0 None] @ lit ''Unsplash''
     @ [Rep (- {CHR ''*''}) 0 None] @ lit ''*'', multiline = False\<rparr>"

definition photoCaptionPattern :: regex where
  "photoCaptionPattern = \<lparr>toks = lit ''*'' @ [Rep (- {CHR ''*''}) 0 None] @ lit ''Photo''
     @ [Rep (- {CHR ''*''}) 0 None] @ lit ''*'', multiline = False\<rparr>"

definition h1Pattern :: regex where
  "h1Pattern = \<lparr>toks = [Bol] @ lit ''# '' @ [Rep (- line_terminator) 1 None, Eol],
     multiline = True\<rparr>"

definition headingPattern :: "string \<Rightarrow> regex" where
  "headingPattern marker = \<lparr>toks = [Bol] @ lit marker @ lit '' ''
     @ [Open, Rep (- line_terminator) 1 None, Close, Eol], multiline = True\<rparr>"

definition linkPattern :: regex where
  "linkPattern = \<lparr>toks = lit ''['' @ [Open, Rep (- {CHR '']''}) 1 None, Close] @ lit ''](''
     @ [Open, Rep (- {CHR '')''}) 1 None, Close] @ lit '')'', multiline = False\<rparr>"

definition bareUrlPattern :: regex where
  \<open>bareUrlPattern = \<lparr>toks = [Open, Alt [Bol] [Ch (- {CHR ''"'', CHR 0x27, CHR ''>''})], Close, Open]
     @ lit ''http'' @ [Rep {CHR ''s''} 0 (Some 1)] @ lit ''://''
     @ [Rep (- (white_space \<union> {CHR ''<'', CHR ''>'', CHR ''"''})) 1 None, Close,
        NegLook ([Rep (- {CHR ''<''}) 0 None] @ lit ''</a>'')], multiline = False\<rparr>\<close>

definition boldPattern :: regex where
  "boldPattern = \<lparr>toks = lit ''**'' @ [Open, Rep (- {CHR ''*''}) 1 None, Close] @ lit ''**'',
     multiline = False\<rparr>"

definition italicPattern :: regex where
  "italicPattern = \<lparr>toks = lit ''*'' @ [Open, Rep (- {CHR ''*''}) 1 None, Close] @ lit ''*'',
     multiline = False\<rparr>"

fun groupListItems :: "bool \<Rightarrow> string list \<Rightarrow> string list" where
  "groupListItems inList [] = (if inList then [''</ul>''] else [])"
| "groupListItems inList (line # lines) =
     (if js_includes line ''<li>''
      then (if \<not> inList then [''<ul>''] else []) @ line # groupListItems True lines
      else (if inList then [''</ul>''] else []) @ line # groupListItems False lines)"

definition anchor :: "string \<Rightarrow> string \<Rightarrow> string" where
  \<open>anchor href text = ''<a href="'' @ href @ ''" target="_blank" rel="noopener noreferrer">'' @ text @ ''</a>''\<close>

definition markdownToHtml :: "string \<Rightarrow> string" where
  "markdownToHtml content =
     (let htmlContent = content;
          htmlContent = replaceAll imagePattern (\<lambda>gs. []) htmlContent;
          htmlContent = replaceAll photoByPattern (\<lambda>gs. []) htmlContent;
          htmlContent = replaceAll unsplashCaptionPattern (\<lambda>gs. []) htmlContent;
          htmlContent = replaceAll photoCaptionPattern (\<lambda>gs. []) htmlContent;
          htmlContent = replaceAll h1Pattern (\<lambda>gs. []) htmlContent;
          htmlContent = replaceAll (headingPattern ''##'') (\<lambda>gs. ''<h2>'' @ grp gs 0 @ ''</h2>'') htmlContent;
          htmlContent = replaceAll (headingPattern ''###'') (\<lambda>gs. ''<h3>'' @ grp gs 0 @ ''</h3>'') htmlContent;
          htmlContent = replaceAll (headingPattern ''####'') (\<lambda>gs. ''<h4>'' @ grp gs 0 @ ''</h4>'') htmlContent;
          htmlContent = replaceAll (headingPattern ''-'') (\<lambda>gs. ''<li>'' @ grp gs 0 @ ''</li>'') htmlContent;
          lines = split ''\<newline>'' htmlContent;
          htmlContent = join ''\<newline>'' (groupListItems False lines);
          htmlContent = replaceAll linkPattern (\<lambda>gs. anchor (grp gs 1) (grp gs 0)) htmlContent;
          htmlContent = replaceAll bareUrlPattern (\<lambda>gs. grp gs 0 @ anchor (grp gs 1) (grp gs 1)) htmlContent;
          htmlContent = replaceAll boldPattern (\<lambda>gs. ''<strong>'' @ grp gs 0 @ ''</strong>'') htmlContent;
          htmlContent = replaceAll italicPattern (\<lambda>gs. ''<em>'' @ grp gs 0 @ ''</em>'') htmlContent;
          paragraphs = filter (\<lambda>p. trim p \<noteq> []) (split ''\<newline>\<newline>'' htmlContent)
      in join ''\<newline>\<newline>''
           (map (\<lambda>p. if js_includes p ''<h'' \<or> js_includes p ''<ul'' \<or> js_includes p ''<figure''
                          \<or> js_includes p ''<li''
                       then p else ''<p>'' @ trim p @ ''</p>'') paragraphs))"

definition unsplashUrlPattern :: regex where
  "unsplashUrlPattern = \<lparr>toks = lit_i ''http'' @ [Rep {CHR ''s'', CHR ''S''} 0 (Some 1)] @ lit_i ''://''
     @ [Rep (- white_space) 0 None] @ lit_i ''unsplash'' @ [Rep (- white_space) 0 None],
     multiline = False\<rparr>"

definition imagesUrlPattern :: regex where
  "imagesUrlPattern = \<lparr>toks = lit_i ''http'' @ [Rep {CHR ''s'', CHR ''S''} 0 (Some 1)]
     @ lit_i ''://images.'' @ [Rep (- white_space) 0 None], multiline = False\<rparr>"

definition headerMarksPattern :: regex where
  "headerMarksPattern = \<lparr>toks = [Bol, Rep {CHR ''#''} 1 (Some 6), Rep white_space 1 None],
     multiline = True\<rparr>"

definition formattingPattern :: regex where
  "formattingPattern = \<lparr>toks = [Ch {CHR ''*'', CHR ''_'', CHR 0x60, CHR ''#''}], multiline = False\<rparr>"

definition linkTextPattern :: regex where
  "linkTextPattern = \<lparr>toks = lit ''['' @ [Open, Rep (- {CHR '']''}) 1 None, Close] @ lit ''](''
     @ [Rep (- {CHR '')''}) 1 None] @ lit '')'', multiline = False\<rparr>"

definition blankLinesPattern :: regex where
  "blankLinesPattern = \<lparr>toks = lit ''\<newline>'' @ [Rep white_space 0 None] @ lit ''\<newline>'',
     multiline = False\<rparr>"

definition whiteSpacePattern :: regex where
  "whiteSpacePattern = \<lparr>toks = [Rep white_space 1 None], multiline = False\<rparr>"

definition sentenceEndPattern :: regex where
  "sentenceEndPattern = \<lparr>toks = [Rep {CHR ''.'', CHR ''!'', CHR ''?''} 1 None], multiline = False\<rparr>"

definition urlStartPattern :: regex where
  "urlStartPattern = \<lparr>toks = [Bol] @ lit ''http'' @ [Rep {CHR ''s''} 0 (Some 1)] @ lit ''://'',
     multiline = False\<rparr>"

definition lastWordPattern :: regex where
  "lastWordPattern = \<lparr>toks = [Rep white_space 1 None, Rep (- white_space) 0 None, Eol],
     multiline = False\<rparr>"

definition cleanText :: "string \<Rightarrow> string" where
  "cleanText content =
     (let cleanExcerpt = content;
          cleanExcerpt = replaceAll h1Pattern (\<lambda>gs. []) cleanExcerpt;
          cleanExcerpt = replaceAll imagePattern (\<lambda>gs. []) cleanExcerpt;
          cleanExcerpt = replaceAll imagePattern (\<lambda>gs. []) cleanExcerpt;
          cleanExcerpt = replaceAll unsplashUrlPattern (\<lambda>gs. []) cleanExcerpt;
          cleanExcerpt = replaceAll imagesUrlPattern (\<lambda>gs. []) cleanExcerpt;
          cleanExcerpt = replaceAll photoByPattern (\<lambda>gs. []) cleanExcerpt;
          cleanExcerpt = replaceAll unsplashCaptionPattern (\<lambda>gs. []) cleanExcerpt;
          cleanExcerpt = replaceAll photoCaptionPattern (\<lambda>gs. []) cleanExcerpt;
          cleanExcerpt = replaceAll headerMarksPattern (\<lambda>gs. []) cleanExcerpt;
          cleanExcerpt = replaceAll formattingPattern (\<lambda>gs. []) cleanExcerpt;
          cleanExcerpt = replaceAll linkTextPattern (\<lambda>gs. grp gs 0) cleanExcerpt;
          cleanExcerpt = replaceAll blankLinesPattern (\<lambda>gs. ''\<newline>'') cleanExcerpt;
          cleanExcerpt = trim (replaceAll whiteSpacePattern (\<lambda>gs. '' '') cleanExcerpt)
      in cleanExcerpt)"

fun firstSentence :: "string list \<Rightarrow> string" where
  "firstSentence [] = []"
| "firstSentence (sentence # sentences) =
     (let trimmed = trim sentence
      in if length trimmed > 20 \<and> js_match urlStartPattern trimmed = None
            \<and> \<not> js_includes trimmed ''unsplash''
         then trimmed @ ''.''
         else firstSentence sentences)"

definition genericExcerpt :: string where
  "genericExcerpt = ''A comprehensive guide on sustainable fashion and ethical living.''"

definition excerptOf :: "string \<Rightarrow> string" where
  "excerptOf cleanExcerpt =
     (let sentences = splitRegex sentenceEndPattern cleanExcerpt;
          finalExcerpt = firstSentence sentences;
          finalExcerpt =
            (if finalExcerpt = [] \<and> length cleanExcerpt > 20
             then replaceFirst lastWordPattern (\<lambda>gs. []) (take 160 cleanExcerpt)
             else finalExcerpt)
      in if finalExcerpt \<noteq> [] then finalExcerpt else genericExcerpt)"

definition extractExcerpt :: "string \<Rightarrow> string" where
  "extractExcerpt content = excerptOf (cleanText content)"

section \<open>Category resolution of the publish handler\<close>

text \<open>
  A category of the live WordPress list (\<^verbatim>\<open>GET /wp-json/wp/v2/categories\<close>): the handler
  reads its \<^verbatim>\<open>id\<close> and its \<^verbatim>\<open>name\<close>.
\<close>

record category =
  cat_id :: int
  cat_name :: string

definition requestedCategoryIds :: "int list option \<Rightarrow> int option \<Rightarrow> int list" where
  \<comment> \<open>\<^verbatim>\<open>seoData?.categoryIds || (categoryId ? [categoryId] : [])\<close>: an array is truthy,
      also the empty one; the number 0 is falsy\<close>
  "requestedCategoryIds seoCategoryIds categoryId =
     (case seoCategoryIds of
        Some ids \<Rightarrow> ids
      | None \<Rightarrow> (case categoryId of
                  Some c \<Rightarrow> if c \<noteq> 0 then [c] else []
                | None \<Rightarrow> []))"

definition validateCategoryIds :: "int list \<Rightarrow> category list \<Rightarrow> int list" where
  \<comment> \<open>the loop \<^verbatim>\<open>for (const catId of categoryIds)\<close>\<close>
  "validateCategoryIds categoryIds availableCategories =
     filter (\<lambda>catId. catId \<in> set (map cat_id availableCategories)) categoryIds"

definition nameIncludes :: "string list \<Rightarrow> category \<Rightarrow> bool" where
  \<comment> \<open>\<^verbatim>\<open>cat.name.toLowerCase().includes(k1) || ... \<close>\<close>
  "nameIncludes ks cat = (\<exists>k \<in> set ks. js_includes (toLowerCase (cat_name cat)) k)"

definition smartFallback :: "string \<Rightarrow> string \<Rightarrow> category list \<Rightarrow> category option" where
  \<comment> \<open>the value of \<^verbatim>\<open>bestMatch\<close> where the handler tests it, lines 2209-2245\<close>
  "smartFallback blogTitle blogContent availableCategories =
     (let title = toLowerCase blogTitle;
          content = toLowerCase blogContent;
          bestMatch = None;
          bestMatch =
            (if js_includes title ''ai'' \<or> js_includes title ''automation''
                \<or> js_includes content ''artificial intelligence''
             then find (nameIncludes [''ai'', ''automation'', ''tool'']) availableCategories
             else bestMatch);
          bestMatch =
            (if bestMatch = None \<and> (js_includes title ''income'' \<or> js_includes title ''money''
                \<or> js_includes content ''passive income'')
             then find (nameIncludes [''income'', ''business'', ''affiliate'']) availableCategories
             else bestMatch);
          bestMatch =
            (if bestMatch = None \<and> (js_includes title ''travel'' \<or> js_includes title ''nomad''
                \<or> js_includes content ''digital nomad'')
             then find (nameIncludes [''nomad'', ''travel'', ''abroad'']) availableCategories
             else bestMatch);
          bestMatch =
            (if bestMatch = None \<and> length availableCategories > 0
             then (case availableCategories of [] \<Rightarrow> None | c # _ \<Rightarrow> Some c)
             else bestMatch)
      in bestMatch)"

definition resolveCategories ::
  "string \<Rightarrow> string \<Rightarrow> int list \<Rightarrow> category list \<Rightarrow> int list" where
  \<comment> \<open>\<^verbatim>\<open>validCategoryIds\<close> as sent in the create-post request, lines 2193-2251\<close>
  "resolveCategories blogTitle blogContent categoryIds availableCategories =
     (let validCategoryIds = validateCategoryIds categoryIds availableCategories
      in if length validCategoryIds = 0 \<and> length availableCategories > 0
         then (case smartFallback blogTitle blogContent availableCategories of
                 Some bestMatch \<Rightarrow> validCategoryIds @ [cat_id bestMatch]
               | None \<Rightarrow> validCategoryIds)
         else validCategoryIds)"

definition fromLiveList :: "category list \<Rightarrow> category option \<Rightarrow> bool" where
  \<comment> \<open>\<^verbatim>\<open>bestMatch\<close> is still null, or an element of the live list\<close>
  "fromLiveList availableCategories r = (r = None \<or> (\<exists>c \<in> set availableCategories. r = Some c))"

section \<open>Data of the publish handler\<close>

fun show_nat :: "nat \<Rightarrow> string" where
  \<comment> \<open>the decimal digits of a natural number: what JavaScript prints for the numbers that
      are safe integers in every run (an HTTP status, the limit of the attempts, the count
      of the matches in a string)\<close>
  "show_nat n = (if n < 10 then [''0123456789'' ! n] else show_nat (n div 10) @ [''0123456789'' ! (n mod 10)])"

declare show_nat.simps [simp del]

definition decimal :: "int \<Rightarrow> string" where
  "decimal i = (if i < 0 then ''-'' @ show_nat (nat (- i)) else show_nat (nat i))"

definition MAX_SAFE_INTEGER :: int where
  "MAX_SAFE_INTEGER = 2 ^ 53 - 1"

definition numberToString :: "(int \<Rightarrow> string) \<Rightarrow> int \<Rightarrow> string" where
  \<comment> \<open>\<^verbatim>\<open>n.toString()\<close> and \<^verbatim>\<open>`${n}`\<close> for a number whose value is the integer \<open>n\<close>: the
      decimal digits of a safe integer. Beyond the safe integers JavaScript prints the
      shortest decimal that rounds to the number, in exponent form from \<open>10^21\<close> on
      (\<^verbatim>\<open>18446744073709552000\<close> for \<open>2^64\<close>, \<^verbatim>\<open>1e+21\<close> for \<open>10^21\<close>); these digits are the
      parameter \<open>unsafe\<close>\<close>
  "numberToString unsafe n =
     (if - MAX_SAFE_INTEGER \<le> n \<and> n \<le> MAX_SAFE_INTEGER then decimal n else unsafe n)"

definition truthy :: "string option \<Rightarrow> bool" where
  "truthy v = (case v of None \<Rightarrow> False | Some s \<Rightarrow> s \<noteq> [])"

definition js_or :: "string option \<Rightarrow> string option \<Rightarrow> string option" where
  "js_or a b = (if truthy a then a else b)"

record blog =
  blogId :: string
  keyword :: string
  title :: string
  content :: string
  status :: string
  wordpressUrl :: "string option"
  wordpressPostId :: "string option"
  publishedAt :: "string option"
  categoryId :: "string option"
  tagIds :: "int list option"
  metaDescription :: "string option"

record credentials =
  cred_wordpressUrl :: string
  cred_username :: string
  cred_password :: string

record storage =
  blogs :: "string \<rightharpoonup> blog"
  wordpressCredentials :: "credentials option"

definition getBlog :: "storage \<Rightarrow> string \<Rightarrow> blog option" where
  "getBlog st ident = blogs st ident"

definition updateBlog :: "storage \<Rightarrow> string \<Rightarrow> (blog \<Rightarrow> blog) \<Rightarrow> storage \<times> blog option" where
  "updateBlog st ident updateFields =
     (case blogs st ident of
        None \<Rightarrow> (st, None)
      | Some existingBlog \<Rightarrow>
          (let updatedBlog = updateFields existingBlog
           in (st\<lparr>blogs := (blogs st)(ident \<mapsto> updatedBlog)\<rparr>, Some updatedBlog)))"

record publish_request =
  req_wordpressUrl :: "string option"
  req_username :: "string option"
  req_password :: "string option"
  req_categoryId :: "int option"
  req_metaDescription :: "string option"
  req_seoCategoryIds :: "int list option"

datatype reply_body =
    ErrorBody string "string option" bool
  | PublishedBody string string "int option" "int list" "string option"
  | BlogBody blog

record reply =
  http_status :: nat
  body :: reply_body

datatype 'a fetched = Rejected | Failed nat | Fetched 'a

record wp_post =
  post_link :: string
  post_id :: int

record response =
  resp_status :: nat
  resp_text :: "string option"
  resp_json :: "string + wp_post"

datatype fetch_result = Reject string | Resolve response

definition ok :: "response \<Rightarrow> bool" where
  "ok r = (200 \<le> resp_status r \<and> resp_status r \<le> 299)"

record wordpressData =
  wp_title :: string
  wp_content :: string
  wp_status :: string
  wp_categories :: "int list"
  wp_tags :: "int list"
  wp_excerpt :: string
  featured_media :: "int option"
  meta_yoast_wpseo_metadesc :: string
  meta_thumbnail_id :: string
  meta_wp_attachment_image_alt :: string

datatype event =
    AuthProbe nat credentials
  | Sleep rat
  | TagCompletion
  | TagSearch string
  | TagCreate string
  | ImageDownload string
  | MediaUpload string
  | FetchCategories
  | FetchTags
  | CreatePost nat nat credentials wordpressData
  | ScheduleSourceBackup

datatype completion = CompletionRejected | Completion "string option"

record world =
  authProbe :: "nat \<Rightarrow> unit fetched"
  tagCompletion :: completion
  tagSearch :: "nat \<Rightarrow> string \<Rightarrow> int list fetched"
  tagCreate :: "nat \<Rightarrow> string \<Rightarrow> int fetched"
  imageDownload :: "string \<Rightarrow> nat fetched"
  mediaUpload :: "int fetched"
  categoriesFetch :: "category list fetched"
  tagsFetch :: "int list fetched"
  createPost :: "nat \<Rightarrow> fetch_result"
  parseErrorJson :: "string \<Rightarrow> (string option \<times> string option) option"
  clock :: "nat \<Rightarrow> string"
  fallbackCredentials :: credentials
  unsafeDigits :: "int \<Rightarrow> string"

definition resolveCredentials ::
  "credentials \<Rightarrow> publish_request \<Rightarrow> credentials option
     \<Rightarrow> string option \<times> string option \<times> string option" where
  \<comment> \<open>lines 1772-1791; \<open>fallback\<close> stands for the three literals of lines 1787-1789, which
      are a working account and are left out of this text\<close>
  "resolveCredentials fallback req storedCredentials =
     (let wordpressUrl = req_wordpressUrl req;
          username = req_username req;
          password = req_password req
      in if \<not> truthy wordpressUrl \<or> \<not> truthy username \<or> \<not> truthy password
         then (case storedCredentials of
                 Some stored \<Rightarrow>
                   (js_or (Some (cred_wordpressUrl stored)) wordpressUrl,
                    js_or (Some (cred_username stored)) username,
                    js_or (Some (cred_password stored)) password)
               | None \<Rightarrow>
                   (Some (cred_wordpressUrl fallback), Some (cred_username fallback),
                    Some (cred_password fallback)))
         else (wordpressUrl, username, password))"

definition completeCredentials ::
  "string option \<times> string option \<times> string option \<Rightarrow> credentials option" where
  "completeCredentials c =
     (case c of
        (Some url, Some username, Some password) \<Rightarrow>
          if url \<noteq> [] \<and> username \<noteq> [] \<and> password \<noteq> []
          then Some \<lparr>cred_wordpressUrl = url, cred_username = username,
                      cred_password = password\<rparr>
          else None
      | _ \<Rightarrow> None)"

function authLoop :: "(nat \<Rightarrow> unit fetched) \<Rightarrow> credentials \<Rightarrow> nat \<Rightarrow> bool \<times> event list" where
  "authLoop probe creds authAttempt =
     (if authAttempt \<le> 3
      then (case probe authAttempt of
              Fetched userInfo \<Rightarrow> (True, [AuthProbe authAttempt creds])
            | _ \<Rightarrow>
                (case authLoop probe creds (authAttempt + 1) of
                   (authSuccess, evs) \<Rightarrow>
                     (authSuccess,
                      AuthProbe authAttempt creds
                        # (if authAttempt < 3 then [Sleep (of_nat (authAttempt * 1000))] else [])
                        @ evs)))
      else (False, []))"
  by pat_completeness auto
termination
  by (relation "measure (\<lambda>(probe, creds, authAttempt). 4 - authAttempt)") auto

declare authLoop.simps [simp del]

section \<open>The publish handler\<close>

definition fallbackTags :: "blog \<Rightarrow> string list" where
  "fallbackTags blog =
     [keyword blog]
     @ (if js_includes (toLowerCase (title blog)) ''business'' then [''business strategy''] else [])
     @ (if js_includes (toLowerCase (title blog)) ''tech'' then [''technology''] else [])
     @ (if js_includes (toLowerCase (title blog)) ''marketing'' then [''marketing''] else [])
     @ [''productivity'', ''tips'']"

definition generateTags :: "completion \<Rightarrow> blog \<Rightarrow> string list" where
  "generateTags tagResponse blog =
     (case tagResponse of
        CompletionRejected \<Rightarrow> fallbackTags blog
      | Completion None \<Rightarrow> []
      | Completion (Some text) \<Rightarrow>
          (let tagString = trim text
           in if tagString \<noteq> []
              then filter (\<lambda>tag. length tag > 0 \<and> length tag \<le> 25)
                     (map trim (split '','' tagString))
              else []))"

fun processTags :: "world \<Rightarrow> nat \<Rightarrow> string list \<Rightarrow> int list \<times> event list" where
  "processTags w i [] = ([], [])"
| "processTags w i (tagName # dynamicTags) =
     (case (case tagSearch w i tagName of
              Rejected \<Rightarrow> ([], [TagSearch tagName])
            | Failed st \<Rightarrow> ([], [TagSearch tagName])
            | Fetched [] \<Rightarrow>
                (case tagCreate w i tagName of
                   Fetched newTagId \<Rightarrow> ([newTagId], [TagSearch tagName, TagCreate tagName])
                 | _ \<Rightarrow> ([], [TagSearch tagName, TagCreate tagName]))
            | Fetched (existingTagId # _) \<Rightarrow> ([existingTagId], [TagSearch tagName])) of
        (ids, evs) \<Rightarrow>
          (case processTags w (Suc i) dynamicTags of
             (ids', evs') \<Rightarrow> (ids @ ids', evs @ evs')))"

definition uploadFeaturedImage :: "world \<Rightarrow> string list option \<Rightarrow> int option \<times> event list" where
  "uploadFeaturedImage w firstImageMatch =
     (case firstImageMatch of
        None \<Rightarrow> (None, [])
      | Some gs \<Rightarrow>
          (let featuredImageUrl = grp gs 1
           in if featuredImageUrl \<noteq> []
              then (case imageDownload w featuredImageUrl of
                      Fetched byteLength \<Rightarrow>
                        if byteLength > 0 \<and> byteLength < 10000000
                        then (case mediaUpload w of
                                Fetched mediaId \<Rightarrow>
                                  (Some mediaId, [ImageDownload featuredImageUrl, MediaUpload (grp gs 0)])
                              | _ \<Rightarrow> (None, [ImageDownload featuredImageUrl, MediaUpload (grp gs 0)]))
                        else (None, [ImageDownload featuredImageUrl])
                    | _ \<Rightarrow> (None, [ImageDownload featuredImageUrl]))
              else (None, [])))"

definition fetchCategories :: "world \<Rightarrow> category list" where
  "fetchCategories w = (case categoriesFetch w of Fetched availableCategories \<Rightarrow> availableCategories | _ \<Rightarrow> [])"

definition validateTags :: "world \<Rightarrow> int list \<Rightarrow> int list \<times> event list" where
  "validateTags w ids =
     (if length ids > 0
      then (case tagsFetch w of
              Fetched availableTagIds \<Rightarrow> (filter (\<lambda>tagId. tagId \<in> set availableTagIds) ids, [FetchTags])
            | Failed st \<Rightarrow> ([], [FetchTags])
            | Rejected \<Rightarrow> (ids, [FetchTags]))
      else ([], []))"

definition MAX_ATTEMPTS :: nat where
  "MAX_ATTEMPTS = 8"

definition attemptTimeout :: "nat \<Rightarrow> nat" where
  "attemptTimeout attempt = min (30000 + (attempt - 1) * 15000) 135000"

definition retryDelay :: "nat \<Rightarrow> rat" where
  "retryDelay attempt = min (3000 * (3 / 2) ^ (attempt - 1)) 60000"

definition str :: "string option \<Rightarrow> string" where
  \<comment> \<open>the string held by a value known to be truthy\<close>
  "str v = (case v of None \<Rightarrow> [] | Some s \<Rightarrow> s)"

type_synonym held_response = "response \<times> bool"

definition readText :: "held_response \<Rightarrow> string option" where
  "readText held = (case held of (r, bodyUsed) \<Rightarrow> if bodyUsed then None else resp_text r)"

definition readJson :: "held_response \<Rightarrow> string + wp_post" where
  "readJson held = (case held of (r, bodyUsed) \<Rightarrow>
     if bodyUsed then Inl ''Body is unusable'' else resp_json r)"

function createPostLoop ::
  "(nat \<Rightarrow> fetch_result) \<Rightarrow> credentials \<Rightarrow> wordpressData \<Rightarrow> nat \<Rightarrow> held_response option
     \<Rightarrow> bool \<times> held_response option \<times> event list" where
  "createPostLoop post creds wpData attempt held =
     (if attempt \<le> MAX_ATTEMPTS
      then (let request = CreatePost attempt (attemptTimeout attempt) creds wpData;
                wait = (if attempt < MAX_ATTEMPTS then [Sleep (retryDelay attempt)] else [])
            in case post attempt of
                 Reject errorMsg \<Rightarrow>
                   (case createPostLoop post creds wpData (attempt + 1) held of
                      (publishSuccess, held', evs) \<Rightarrow> (publishSuccess, held', request # wait @ evs))
               | Resolve r \<Rightarrow>
                   if ok r then (True, Some (r, False), [request])
                   else (case readText (r, False) of
                           None \<Rightarrow>
                             (case createPostLoop post creds wpData (attempt + 1) (Some (r, True)) of
                                (publishSuccess, held', evs) \<Rightarrow>
                                  (publishSuccess, held', request # wait @ evs))
                         | Some errorText \<Rightarrow>
                             if resp_status r = 401 \<or> resp_status r = 403
                             then (False, Some (r, True), [request])
                             else (case createPostLoop post creds wpData (attempt + 1) (Some (r, True)) of
                                     (publishSuccess, held', evs) \<Rightarrow>
                                       (publishSuccess, held', request # wait @ evs))))
      else (False, held, []))"
  by pat_completeness auto
termination
  by (relation "measure (\<lambda>(post, creds, wpData, attempt, held). Suc MAX_ATTEMPTS - attempt)") auto

declare createPostLoop.simps [simp del]

definition finalErrorMessage :: "world \<Rightarrow> held_response option \<Rightarrow> string" where
  "finalErrorMessage w held =
     (let errorMessage = ''WordPress publishing failed after '' @ show_nat MAX_ATTEMPTS @ '' attempts''
      in case held of
           None \<Rightarrow> errorMessage
         | Some h \<Rightarrow>
             (case readText h of
                None \<Rightarrow> ''WordPress HTTP '' @ show_nat (resp_status (fst h)) @ '' error''
              | Some errorText \<Rightarrow>
                  (case parseErrorJson w errorText of
                     None \<Rightarrow> ''WordPress HTTP '' @ show_nat (resp_status (fst h)) @ '' error''
                   | Some (message, code) \<Rightarrow>
                       if truthy message then ''WordPress error: '' @ str message
                       else if truthy code then ''WordPress error code: '' @ str code
                       else errorMessage)))"

definition failedToPublish :: "string \<Rightarrow> reply" where
  "failedToPublish details =
     \<lparr>http_status = 500, body = ErrorBody ''Failed to publish to WordPress'' (Some details) False\<rparr>"

definition buildWordpressData ::
  "blog \<Rightarrow> publish_request \<Rightarrow> string list option \<Rightarrow> int list \<Rightarrow> int list \<Rightarrow> wordpressData" where
  "buildWordpressData blog req firstImageMatch validCategoryIds validTagIds =
     (let finalHtmlContent = markdownToHtml (content blog);
          cleanExcerpt = extractExcerpt (content blog);
          featuredImageUrl = (case firstImageMatch of None \<Rightarrow> [] | Some gs \<Rightarrow> grp gs 1)
      in \<lparr>wp_title = title blog,
          wp_content = finalHtmlContent,
          wp_status = ''publish'',
          wp_categories = validCategoryIds,
          wp_tags = validTagIds,
          wp_excerpt = cleanExcerpt,
          featured_media = None,
          meta_yoast_wpseo_metadesc =
            (if truthy (req_metaDescription req) then str (req_metaDescription req)
             else cleanExcerpt),
          meta_thumbnail_id = (if featuredImageUrl \<noteq> [] then ''external'' else []),
          meta_wp_attachment_image_alt = ''Featured image''\<rparr>)"

definition finishPublish ::
  "world \<Rightarrow> storage \<Rightarrow> blog \<Rightarrow> publish_request \<Rightarrow> int list \<Rightarrow> event list
     \<Rightarrow> bool \<times> held_response option \<times> event list \<Rightarrow> reply \<times> storage \<times> event list" where
  \<comment> \<open>lines 2392-2441: what follows the create-post loop; \<open>before\<close> are the calls made
      before the loop, \<open>ids\<close> is the variable \<^verbatim>\<open>tagIds\<close>\<close>
  "finishPublish w st blog req ids before outcome =
     (case outcome of (publishSuccess, held, postEvents) \<Rightarrow>
        (let evs = before @ postEvents
         in if \<not> publishSuccess \<or> \<not> (case held of None \<Rightarrow> False | Some h \<Rightarrow> ok (fst h))
            then (failedToPublish (finalErrorMessage w held), st, evs)
            else (case held of
                    None \<Rightarrow> (failedToPublish [], st, evs)
                  | Some h \<Rightarrow>
                      (case readJson h of
                         Inl message \<Rightarrow> (failedToPublish message, st, evs)
                       | Inr publishedPost \<Rightarrow>
                           (let (st', updatedBlog) = updateBlog st (blogId blog)
                                  (\<lambda>b. b\<lparr>status := ''published'',
                                          wordpressUrl := Some (post_link publishedPost),
                                          wordpressPostId := Some (numberToString (unsafeDigits w) (post_id publishedPost)),
                                          publishedAt := Some (clock w 0),
                                          categoryId := map_option (numberToString (unsafeDigits w)) (req_categoryId req),
                                          tagIds := Some ids,
                                          metaDescription := req_metaDescription req\<rparr>)
                            in (\<lparr>http_status = 200,
                                 body = PublishedBody (post_link publishedPost) (clock w 1)
                                          (req_categoryId req) ids (req_metaDescription req)\<rparr>,
                                st', evs @ [ScheduleSourceBackup]))))))"

definition publishAuthenticated ::
  "world \<Rightarrow> storage \<Rightarrow> blog \<Rightarrow> publish_request \<Rightarrow> credentials \<Rightarrow> reply \<times> storage \<times> event list" where
  \<comment> \<open>lines 1856-2390: from the tag generation to the create-post loop\<close>
  "publishAuthenticated w st blog req creds =
     (let dynamicTags = generateTags (tagCompletion w) blog;
          (ids, tagEvents) = processTags w 0 dynamicTags;
          firstImageMatch = js_match imagePattern (content blog);
          (featuredMediaId, imageEvents) = uploadFeaturedImage w firstImageMatch;
          categoryIds = requestedCategoryIds (req_seoCategoryIds req) (req_categoryId req);
          availableCategories = fetchCategories w;
          validCategoryIds = resolveCategories (title blog) (content blog) categoryIds availableCategories;
          (validTagIds, validationEvents) = validateTags w ids;
          wpData = buildWordpressData blog req firstImageMatch validCategoryIds validTagIds
      in finishPublish w st blog req ids
           ([TagCompletion] @ tagEvents @ imageEvents @ [FetchCategories] @ validationEvents)
           (createPostLoop (createPost w) creds wpData 1 None))"

definition publish :: "world \<Rightarrow> storage \<Rightarrow> string \<Rightarrow> publish_request \<Rightarrow> reply \<times> storage \<times> event list" where
  "publish w st ident req =
     (case getBlog st ident of
        None \<Rightarrow> (\<lparr>http_status = 404, body = ErrorBody ''Blog not found'' None False\<rparr>, st, [])
      | Some blog \<Rightarrow>
          (case completeCredentials
                  (resolveCredentials (fallbackCredentials w) req (wordpressCredentials st)) of
             None \<Rightarrow>
               (\<lparr>http_status = 400,
                 body = ErrorBody ''WordPress credentials are incomplete'' None True\<rparr>, st, [])
           | Some creds \<Rightarrow>
               (case authLoop (authProbe w) creds 1 of
                  (authSuccess, authEvents) \<Rightarrow>
                    if \<not> authSuccess
                    then (\<lparr>http_status = 401,
                           body = ErrorBody ''WordPress authentication failed after multiple attempts''
                                    (Some ''Please verify your WordPress URL, username, and application password'')
                                    True\<rparr>, st, authEvents)
                    else (case publishAuthenticated w st blog req creds of
                            (rep, st', evs) \<Rightarrow> (rep, st', authEvents @ evs)))))"

fun isCreatePost :: "event \<Rightarrow> bool" where
  "isCreatePost (CreatePost attempt timeout creds wpData) = True"
| "isCreatePost _ = False"

fun isAuthProbe :: "event \<Rightarrow> bool" where
  "isAuthProbe (AuthProbe attempt creds) = True"
| "isAuthProbe _ = False"

definition stops :: "fetch_result \<Rightarrow> bool" where
  "stops outcome =
     (case outcome of
        Reject errorMsg \<Rightarrow> False
      | Resolve r \<Rightarrow> ok r \<or> (resp_text r \<noteq> None \<and> (resp_status r = 401 \<or> resp_status r = 403)))"

definition postEvents :: "(nat \<Rightarrow> fetch_result) \<Rightarrow> credentials \<Rightarrow> wordpressData \<Rightarrow> nat \<Rightarrow> event list" where
  "postEvents post creds wpData attempt = snd (snd (createPostLoop post creds wpData attempt None))"

definition attemptsMade :: "(nat \<Rightarrow> fetch_result) \<Rightarrow> nat" where
  "attemptsMade post = (case find (\<lambda>k. stops (post k)) [1..<9] of Some k \<Rightarrow> k | None \<Rightarrow> 8)"

definition firstStop :: "(nat \<Rightarrow> fetch_result) \<Rightarrow> nat \<Rightarrow> nat" where
  "firstStop post a = (case find (\<lambda>k. stops (post k)) [a..<9] of Some k \<Rightarrow> k | None \<Rightarrow> 8)"

definition flakyPost :: "nat \<Rightarrow> fetch_result" where
  "flakyPost attempt =
     (if attempt < 3 then Reject ''fetch failed''
      else Resolve \<lparr>resp_status = 201, resp_text = Some ''{}'',
             resp_json = Inr \<lparr>post_link = ''https://wp.example/tea'', post_id = 77\<rparr>\<rparr>)"

definition storedCreds :: credentials where
  "storedCreds = \<lparr>cred_wordpressUrl = ''https://wp.example'', cred_username = ''editor'',
     cred_password = ''app password''\<rparr>"

definition probeOk :: "unit fetched \<Rightarrow> bool" where
  "probeOk outcome = (case outcome of Fetched userInfo \<Rightarrow> True | _ \<Rightarrow> False)"

definition authFailedReply :: reply where
  "authFailedReply =
     \<lparr>http_status = 401,
      body = ErrorBody ''WordPress authentication failed after multiple attempts''
               (Some ''Please verify your WordPress URL, username, and application password'')
               True\<rparr>"

definition teaBlog :: blog where
  "teaBlog = \<lparr>blogId = ''b1'', keyword = ''tea'', title = ''Tea time'',
     content = ''![cup](https://img.example/cup.png)\<newline>\<newline>Tea is a drink enjoyed by many people.'',
     status = ''draft'', wordpressUrl = None, wordpressPostId = None, publishedAt = None,
     categoryId = None, tagIds = None, metaDescription = None\<rparr>"

definition teaStorage :: storage where
  "teaStorage = \<lparr>blogs = [''b1'' \<mapsto> teaBlog], wordpressCredentials = Some storedCreds\<rparr>"

definition teaRequest :: publish_request where
  "teaRequest = \<lparr>req_wordpressUrl = None, req_username = None, req_password = None,
     req_categoryId = Some 99, req_metaDescription = None, req_seoCategoryIds = None\<rparr>"

definition createdPost :: response where
  "createdPost = \<lparr>resp_status = 201, resp_text = Some ''{}'',
     resp_json = Inr \<lparr>post_link = ''https://wp.example/tea'', post_id = 77\<rparr>\<rparr>"

definition teaWorld :: world where
  "teaWorld = \<lparr>authProbe = (\<lambda>attempt. Fetched ()),
     tagCompletion = Completion (Some ''green tea, brewing''),
     tagSearch = (\<lambda>i name. if i = 0 then Fetched [11] else Fetched []),
     tagCreate = (\<lambda>i name. Fetched 12),
     imageDownload = (\<lambda>url. Fetched 2048),
     mediaUpload = Fetched 42,
     categoriesFetch = Fetched [\<lparr>cat_id = 3, cat_name = ''General''\<rparr>],
     tagsFetch = Fetched [11],
     createPost = (\<lambda>attempt. Resolve createdPost),
     parseErrorJson = (\<lambda>errorText. None),
     clock = (\<lambda>reading. ''2025-01-01T00:00:00.000Z''),
     fallbackCredentials = \<lparr>cred_wordpressUrl = ''https://fallback.example'',
       cred_username = ''fallback-user'', cred_password = ''fallback-password''\<rparr>,
     unsafeDigits = (\<lambda>n. ''1e+21'')\<rparr>"

definition lockedOutWorld :: world where
  "lockedOutWorld = teaWorld\<lparr>authProbe := (\<lambda>attempt. Failed 401)\<rparr>"

definition teaSent :: wordpressData where
  "teaSent = \<lparr>wp_title = ''Tea time'',
     wp_content = ''<p>Tea is a drink enjoyed by many people.</p>'', wp_status = ''publish'',
     wp_categories = [3], wp_tags = [11],
     wp_excerpt = ''Tea is a drink enjoyed by many people.'', featured_media = None,
     meta_yoast_wpseo_metadesc = ''Tea is a drink enjoyed by many people.'',
     meta_thumbnail_id = ''external'', meta_wp_attachment_image_alt = ''Featured image''\<rparr>"

definition teaPublished :: blog where
  "teaPublished = teaBlog\<lparr>status := ''published'', wordpressUrl := Some ''https://wp.example/tea'',
     wordpressPostId := Some ''77'', publishedAt := Some ''2025-01-01T00:00:00.000Z'',
     categoryId := Some ''99'', tagIds := Some [11, 12], metaDescription := None\<rparr>"

definition teaBefore :: "event list" where
  "teaBefore = [TagCompletion, TagSearch ''green tea'', TagSearch ''brewing'', TagCreate ''brewing'',
     ImageDownload ''https://img.example/cup.png'', MediaUpload ''cup'', FetchCategories, FetchTags]"

definition unauthorized :: response where
  "unauthorized = \<lparr>resp_status = 401, resp_text = Some ''Sorry, you are not allowed to create posts.'',
     resp_json = Inl ''Unexpected token''\<rparr>"

definition serverError :: response where
  "serverError = \<lparr>resp_status = 500, resp_text = Some ''Internal Server Error'',
     resp_json = Inl ''Unexpected token''\<rparr>"

definition revokedWorld :: world where
  "revokedWorld = teaWorld\<lparr>createPost := (\<lambda>attempt. Resolve unauthorized)\<rparr>"

definition brokenWorld :: world where
  "brokenWorld = teaWorld\<lparr>createPost := (\<lambda>attempt. Resolve serverError)\<rparr>"

definition requestWithCredentials :: publish_request where
  "requestWithCredentials = \<lparr>req_wordpressUrl = Some ''https://request.example'',
     req_username = Some ''request-user'', req_password = Some ''request-password'',
     req_categoryId = None, req_metaDescription = None, req_seoCategoryIds = None\<rparr>"

definition requestCreds :: credentials where
  "requestCreds = \<lparr>cred_wordpressUrl = ''https://request.example'',
     cred_username = ''request-user'', cred_password = ''request-password''\<rparr>"

definition crowdedImages :: string where
  "crowdedImages = ''!![a](b)[](d)''"

definition longSentence :: string where
  "longSentence = ''Green tea that has been picked in early spring and dried slowly over several days keeps a grassy and slightly sweet taste that most drinkers prefer to the sharper taste of leaves picked later in the year and dried quickly in ovens''"

definition shortSentence :: string where
  "shortSentence = ''Tea is warm and good''"

definition qualifies :: "string \<Rightarrow> bool" where
  \<comment> \<open>the test of the loop over the sentences, lines 2161-2167, on the trimmed sentence\<close>
  "qualifies trimmed =
     (length trimmed > 20 \<and> js_match urlStartPattern trimmed = None
      \<and> \<not> js_includes trimmed ''unsplash'')"

definition firstWords :: "string \<Rightarrow> string" where
  \<comment> \<open>\<^verbatim>\<open>cleanExcerpt.substring(0, 160).replace(/\s+\S*$/, '')\<close>, line 2170\<close>
  "firstWords cleanExcerpt = replaceFirst lastWordPattern (\<lambda>gs. []) (take 160 cleanExcerpt)"

record new_image =
  img_url :: string
  img_description :: string
  img_alt_description :: string

definition imageMarkdown :: "new_image \<Rightarrow> string \<Rightarrow> string" where
  \<comment> \<open>the template of line 2508; an absent or empty field is falsy\<close>
  "imageMarkdown newImage alt =
     ''!['' @ (if img_description newImage \<noteq> [] then img_description newImage
              else if img_alt_description newImage \<noteq> [] then img_alt_description newImage
              else alt)
     @ '']('' @ img_url newImage @ '')''"

definition replaceCallback ::
  "int \<Rightarrow> new_image \<Rightarrow> string \<Rightarrow> string list \<Rightarrow> nat \<times> bool \<Rightarrow> string \<times> (nat \<times> bool)" where
  \<comment> \<open>the callback of lines 2502-2513; the state is \<^verbatim>\<open>currentIndex\<close> and \<^verbatim>\<open>replaced\<close>\<close>
  "replaceCallback imageIndexNum newImage matched gs state =
     (case state of (currentIndex, replaced) \<Rightarrow>
        if int currentIndex = imageIndexNum
        then (imageMarkdown newImage (grp gs 0), (currentIndex + 1, True))
        else (matched, (currentIndex + 1, replaced)))"

definition updateBlogImage ::
  "(int \<Rightarrow> string) \<Rightarrow> storage \<Rightarrow> string \<Rightarrow> int option \<Rightarrow> new_image option
     \<Rightarrow> reply \<times> storage \<times> event list" where
  \<comment> \<open>PATCH /api/blogs/:id/images/:imageIndex, lines 2456-2536; \<open>imageIndexNum\<close> is the value of
      \<^verbatim>\<open>parseInt(imageIndex)\<close>, \<open>None\<close> for NaN; \<open>unsafe\<close> gives the digits of a number beyond
      the safe integers. The count of the matches in a JavaScript string is a safe integer\<close>
  "updateBlogImage unsafe st ident imageIndexNum newImage =
     (case newImage of
        None \<Rightarrow> (\<lparr>http_status = 400, body = ErrorBody ''New image data is required'' None False\<rparr>, st, [])
      | Some img \<Rightarrow>
          if img_url img = []
          then (\<lparr>http_status = 400, body = ErrorBody ''New image data is required'' None False\<rparr>, st, [])
          else (case getBlog st ident of
                  None \<Rightarrow> (\<lparr>http_status = 404, body = ErrorBody ''Blog not found'' None False\<rparr>, st, [])
                | Some blog \<Rightarrow>
                    (case imageIndexNum of
                       None \<Rightarrow>
                         (\<lparr>http_status = 400, body = ErrorBody ''Invalid image index'' None False\<rparr>, st, [])
                     | Some i \<Rightarrow>
                         if i < 0
                         then (\<lparr>http_status = 400, body = ErrorBody ''Invalid image index'' None False\<rparr>,
                               st, [])
                         else (case replaceWith imagePattern (replaceCallback i img) (0, False) None
                                      (content blog) of
                                 (updatedContent, currentIndex, replaced) \<Rightarrow>
                                   if \<not> replaced
                                   then (\<lparr>http_status = 400,
                                          body = ErrorBody
                                            (''Image index '' @ numberToString unsafe i
                                             @ '' not found in content. Total images: ''
                                             @ show_nat currentIndex) None False\<rparr>, st, [])
                                   else (case updateBlog st ident (\<lambda>b. b\<lparr>content := updatedContent\<rparr>) of
                                           (st', None) \<Rightarrow>
                                             (\<lparr>http_status = 500,
                                               body = ErrorBody ''Failed to save updated blog'' None False\<rparr>,
                                              st', [])
                                         | (st', Some updatedBlog) \<Rightarrow>
                                             (\<lparr>http_status = 200, body = BlogBody updatedBlog\<rparr>, st',
                                              [ScheduleSourceBackup]))))))"

definition galleryBlog :: blog where
  "galleryBlog = \<lparr>blogId = ''g1'', keyword = ''tea'', title = ''Two cups'',
     content = ''Intro ![first cup](https://img.example/1.png) middle ![second cup](https://img.example/2.png) end.'',
     status = ''draft'', wordpressUrl = None, wordpressPostId = None, publishedAt = None,
     categoryId = None, tagIds = None, metaDescription = None\<rparr>"

definition galleryStorage :: storage where
  "galleryStorage = \<lparr>blogs = [''g1'' \<mapsto> galleryBlog], wordpressCredentials = None\<rparr>"

definition teapot :: new_image where
  "teapot = \<lparr>img_url = ''https://img.example/pot.png'', img_description = ''a teapot'',
     img_alt_description = []\<rparr>"

definition sentPost :: "world \<Rightarrow> blog \<Rightarrow> publish_request \<Rightarrow> wordpressData" where
  \<comment> \<open>the value of \<^verbatim>\<open>wordpressData\<close>, lines 2285-2298, in a publish of \<open>blog\<close>\<close>
  "sentPost w blog req =
     (let ids = fst (processTags w 0 (generateTags (tagCompletion w) blog));
          categoryIds = requestedCategoryIds (req_seoCategoryIds req) (req_categoryId req)
      in buildWordpressData blog req (js_match imagePattern (content blog))
           (resolveCategories (title blog) (content blog) categoryIds (fetchCategories w))
           (fst (validateTags w ids)))"

definition flakyWorld :: world where
  "flakyWorld = teaWorld\<lparr>createPost := flakyPost\<rparr>"

function imageRefs :: "nat \<Rightarrow> char option \<Rightarrow> string \<Rightarrow> (nat \<times> nat \<times> string list) list" where
  "imageRefs lastIndex p s =
     (case search imagePattern p s of
        None \<Rightarrow> []
      | Some (i, n, gs) \<Rightarrow>
          (lastIndex + i, n, gs)
            # imageRefs (lastIndex + i + n) (Some (last (take (i + n) s))) (drop (i + n) s))"
  by pat_completeness auto

section \<open>Properties\<close>

subsection \<open>Category fallback\<close>

lemma fromLiveList_find: "fromLiveList av (find P av)"
  by (cases "find P av") (auto simp: fromLiveList_def find_Some_iff)

lemma fromLiveList_step: "fromLiveList av r \<Longrightarrow> fromLiveList av (if b then find P av else r)"
  by (simp add: fromLiveList_find)

lemma fromLiveList_last:
  "fromLiveList av r \<Longrightarrow> av \<noteq> [] \<Longrightarrow>
   \<exists>c \<in> set av. (if r = None \<and> length av > 0 then (case av of [] \<Rightarrow> None | c # _ \<Rightarrow> Some c) else r) = Some c"
  by (cases av) (auto simp: fromLiveList_def)

lemma smartFallback_Some:
  assumes "availableCategories \<noteq> []"
  shows "\<exists>c \<in> set availableCategories. smartFallback t b availableCategories = Some c"
  unfolding smartFallback_def Let_def
  by (intro fromLiveList_last fromLiveList_step assms) (simp add: fromLiveList_def)

lemma fallback_chain:
  "(let bestMatch = None;
        bestMatch = (if g1 then m1 else bestMatch);
        bestMatch = (if bestMatch = None \<and> g2 then m2 else bestMatch);
        bestMatch = (if bestMatch = None \<and> g3 then m3 else bestMatch);
        bestMatch = (if bestMatch = None \<and> length (a # as) > 0
                     then (case a # as of [] \<Rightarrow> None | c # _ \<Rightarrow> Some c) else bestMatch)
    in bestMatch) =
   Some (case (if g1 then m1 else None) of
           Some c \<Rightarrow> c
         | None \<Rightarrow>
             (case (if g2 then m2 else None) of
                Some c \<Rightarrow> c
              | None \<Rightarrow> (case (if g3 then m3 else None) of Some c \<Rightarrow> c | None \<Rightarrow> a)))"
  by (cases g1; cases g2; cases g3; cases m1; cases m2; cases m3) (simp_all add: Let_def)

lemma nameIncludes_3:
  "nameIncludes [k1, k2, k3] =
     (\<lambda>cat. js_includes (toLowerCase (cat_name cat)) k1
          \<or> js_includes (toLowerCase (cat_name cat)) k2
          \<or> js_includes (toLowerCase (cat_name cat)) k3)"
  by (rule ext) (simp add: nameIncludes_def)

lemma smartFallback_choice:
  assumes "availableCategories \<noteq> []"
  shows "smartFallback blogTitle blogContent availableCategories =
     Some
          (case (if js_includes (toLowerCase blogTitle) ''ai'' \<or> js_includes (toLowerCase blogTitle) ''automation''
                    \<or> js_includes (toLowerCase blogContent) ''artificial intelligence''
                then find (\<lambda>cat. js_includes (toLowerCase (cat_name cat)) ''ai'' \<or> js_includes (toLowerCase (cat_name cat)) ''automation'' \<or> js_includes (toLowerCase (cat_name cat)) ''tool'')
                       availableCategories
                else None) of
             Some c \<Rightarrow> c
           | None \<Rightarrow>
              (case (if js_includes (toLowerCase blogTitle) ''income'' \<or> js_includes (toLowerCase blogTitle) ''money''
                        \<or> js_includes (toLowerCase blogContent) ''passive income''
                    then find (\<lambda>cat. js_includes (toLowerCase (cat_name cat)) ''income'' \<or> js_includes (toLowerCase (cat_name cat)) ''business'' \<or> js_includes (toLowerCase (cat_name cat)) ''affiliate'')
                           availableCategories
                    else None) of
                 Some c \<Rightarrow> c
               | None \<Rightarrow>
                  (case (if js_includes (toLowerCase blogTitle) ''travel'' \<or> js_includes (toLowerCase blogTitle) ''nomad''
                            \<or> js_includes (toLowerCase blogContent) ''digital nomad''
                        then find (\<lambda>cat. js_includes (toLowerCase (cat_name cat)) ''nomad'' \<or> js_includes (toLowerCase (cat_name cat)) ''travel'' \<or> js_includes (toLowerCase (cat_name cat)) ''abroad'')
                               availableCategories
                        else None) of
                     Some c \<Rightarrow> c
                   | None \<Rightarrow>
                      hd availableCategories)))"
proof -
  obtain a as where av: "availableCategories = a # as"
    using assms by (cases availableCategories) auto
  show ?thesis
    unfolding smartFallback_def nameIncludes_3 av list.sel
      Let_def [of "toLowerCase blogTitle"] Let_def [of "toLowerCase blogContent"]
    by (rule fallback_chain)
qed

text \<open>
  C8. When no requested category id is among the ids of the live category list and that
  list is not empty, the categories sent are exactly one id, of a live category. It is the
  id of the first live category whose name, in lower case, contains "ai", "automation" or
  "tool", when the title contains "ai" or "automation" or the content contains "artificial
  intelligence" (title and content in lower case) and there is such a category; else that
  of the first live category whose name contains "income", "business" or "affiliate", when
  the title contains "income" or "money" or the content contains "passive income" and there
  is such a category; else that of the first live category whose name contains "nomad",
  "travel" or "abroad", when the title contains "travel" or "nomad" or the content contains
  "digital nomad" and there is such a category; else that of the first live category. For
  the live list of the single category 3 "General" the result is [3].
\<close>

theorem category_fallback_nonempty:
  assumes "availableCategories \<noteq> []"
    and "\<forall>catId \<in> set categoryIds. catId \<notin> cat_id ` set availableCategories"
  shows "resolveCategories blogTitle blogContent categoryIds availableCategories =
     [cat_id
          (case (if js_includes (toLowerCase blogTitle) ''ai'' \<or> js_includes (toLowerCase blogTitle) ''automation''
                    \<or> js_includes (toLowerCase blogContent) ''artificial intelligence''
                then find (\<lambda>cat. js_includes (toLowerCase (cat_name cat)) ''ai'' \<or> js_includes (toLowerCase (cat_name cat)) ''automation'' \<or> js_includes (toLowerCase (cat_name cat)) ''tool'')
                       availableCategories
                else None) of
             Some c \<Rightarrow> c
           | None \<Rightarrow>
              (case (if js_includes (toLowerCase blogTitle) ''income'' \<or> js_includes (toLowerCase blogTitle) ''money''
                        \<or> js_includes (toLowerCase blogContent) ''passive income''
                    then find (\<lambda>cat. js_includes (toLowerCase (cat_name cat)) ''income'' \<or> js_includes (toLowerCase (cat_name cat)) ''business'' \<or> js_includes (toLowerCase (cat_name cat)) ''affiliate'')
                           availableCategories
                    else None) of
                 Some c \<Rightarrow> c
               | None \<Rightarrow>
                  (case (if js_includes (toLowerCase blogTitle) ''travel'' \<or> js_includes (toLowerCase blogTitle) ''nomad''
                            \<or> js_includes (toLowerCase blogContent) ''digital nomad''
                        then find (\<lambda>cat. js_includes (toLowerCase (cat_name cat)) ''nomad'' \<or> js_includes (toLowerCase (cat_name cat)) ''travel'' \<or> js_includes (toLowerCase (cat_name cat)) ''abroad'')
                               availableCategories
                        else None) of
                     Some c \<Rightarrow> c
                   | None \<Rightarrow>
                      hd availableCategories)))]
   \<and> (\<exists>c \<in> set availableCategories.
         resolveCategories blogTitle blogContent categoryIds availableCategories = [cat_id c])
   \<and> (availableCategories = [\<lparr>cat_id = 3, cat_name = ''General''\<rparr>]
        \<longrightarrow> resolveCategories blogTitle blogContent categoryIds availableCategories = [3])"
proof -
  have v: "validateCategoryIds categoryIds availableCategories = []"
    unfolding validateCategoryIds_def filter_empty_conv using assms(2) by simp
  have r: "resolveCategories blogTitle blogContent categoryIds availableCategories =
     [cat_id
          (case (if js_includes (toLowerCase blogTitle) ''ai'' \<or> js_includes (toLowerCase blogTitle) ''automation''
                    \<or> js_includes (toLowerCase blogContent) ''artificial intelligence''
                then find (\<lambda>cat. js_includes (toLowerCase (cat_name cat)) ''ai'' \<or> js_includes (toLowerCase (cat_name cat)) ''automation'' \<or> js_includes (toLowerCase (cat_name cat)) ''tool'')
                       availableCategories
                else None) of
             Some c \<Rightarrow> c
           | None \<Rightarrow>
              (case (if js_includes (toLowerCase blogTitle) ''income'' \<or> js_includes (toLowerCase blogTitle) ''money''
                        \<or> js_includes (toLowerCase blogContent) ''passive income''
                    then find (\<lambda>cat. js_includes (toLowerCase (cat_name cat)) ''income'' \<or> js_includes (toLowerCase (cat_name cat)) ''business'' \<or> js_includes (toLowerCase (cat_name cat)) ''affiliate'')
                           availableCategories
                    else None) of
                 Some c \<Rightarrow> c
               | None \<Rightarrow>
                  (case (if js_includes (toLowerCase blogTitle) ''travel'' \<or> js_includes (toLowerCase blogTitle) ''nomad''
                            \<or> js_includes (toLowerCase blogContent) ''digital nomad''
                        then find (\<lambda>cat. js_includes (toLowerCase (cat_name cat)) ''nomad'' \<or> js_includes (toLowerCase (cat_name cat)) ''travel'' \<or> js_includes (toLowerCase (cat_name cat)) ''abroad'')
                               availableCategories
                        else None) of
                     Some c \<Rightarrow> c
                   | None \<Rightarrow>
                      hd availableCategories)))]"
    unfolding resolveCategories_def Let_def v smartFallback_choice [OF assms(1)]
    using assms(1) by simp
  from smartFallback_Some [OF assms(1)] obtain c where
    c: "c \<in> set availableCategories" "smartFallback blogTitle blogContent availableCategories = Some c"
    by blast
  have m: "resolveCategories blogTitle blogContent categoryIds availableCategories = [cat_id c]"
    unfolding resolveCategories_def Let_def v using assms(1) c(2) by simp
  have g: "availableCategories = [\<lparr>cat_id = 3, cat_name = ''General''\<rparr>]
            \<longrightarrow> resolveCategories blogTitle blogContent categoryIds availableCategories = [3]"
  proof
    assume a: "availableCategories = [\<lparr>cat_id = 3, cat_name = ''General''\<rparr>]"
    with c(1) have "c = \<lparr>cat_id = 3, cat_name = ''General''\<rparr>" by simp
    with m show "resolveCategories blogTitle blogContent categoryIds availableCategories = [3]" by simp
  qed
  from c(1) m have "\<exists>c \<in> set availableCategories.
         resolveCategories blogTitle blogContent categoryIds availableCategories = [cat_id c]"
    by blast
  with r g show ?thesis by (intro conjI)
qed

theorem category_fallback_nonempty_witness:
  "resolveCategories ''Slow mornings'' ''Tea and toast.'' [7, 9]
     [\<lparr>cat_id = 3, cat_name = ''General''\<rparr>] = [3]
   \<and> resolveCategories ''AI tools for tea'' ''Tea and toast.'' []
     [\<lparr>cat_id = 1, cat_name = ''General''\<rparr>, \<lparr>cat_id = 7, cat_name = ''Automation''\<rparr>] = [7]
   \<and> resolveCategories ''Money and travel'' ''Tea and toast.'' [2]
     [\<lparr>cat_id = 1, cat_name = ''General''\<rparr>, \<lparr>cat_id = 5, cat_name = ''Travel''\<rparr>] = [5]"
proof -
  have e1: "resolveCategories ''Slow mornings'' ''Tea and toast.'' [7, 9]
      [\<lparr>cat_id = 3, cat_name = ''General''\<rparr>] =
     [cat_id
          (case (if js_includes (toLowerCase ''Slow mornings'') ''ai'' \<or> js_includes (toLowerCase ''Slow mornings'') ''automation''
                    \<or> js_includes (toLowerCase ''Tea and toast.'') ''artificial intelligence''
                then find (\<lambda>cat. js_includes (toLowerCase (cat_name cat)) ''ai'' \<or> js_includes (toLowerCase (cat_name cat)) ''automation'' \<or> js_includes (toLowerCase (cat_name cat)) ''tool'')
                       [\<lparr>cat_id = 3, cat_name = ''General''\<rparr>]
                else None) of
             Some c \<Rightarrow> c
           | None \<Rightarrow>
              (case (if js_includes (toLowerCase ''Slow mornings'') ''income'' \<or> js_includes (toLowerCase ''Slow mornings'') ''money''
                        \<or> js_includes (toLowerCase ''Tea and toast.'') ''passive income''
                    then find (\<lambda>cat. js_includes (toLowerCase (cat_name cat)) ''income'' \<or> js_includes (toLowerCase (cat_name cat)) ''business'' \<or> js_includes (toLowerCase (cat_name cat)) ''affiliate'')
                           [\<lparr>cat_id = 3, cat_name = ''General''\<rparr>]
                    else None) of
                 Some c \<Rightarrow> c
               | None \<Rightarrow>
                  (case (if js_includes (toLowerCase ''Slow mornings'') ''travel'' \<or> js_includes (toLowerCase ''Slow mornings'') ''nomad''
                            \<or> js_includes (toLowerCase ''Tea and toast.'') ''digital nomad''
                        then find (\<lambda>cat. js_includes (toLowerCase (cat_name cat)) ''nomad'' \<or> js_includes (toLowerCase (cat_name cat)) ''travel'' \<or> js_includes (toLowerCase (cat_name cat)) ''abroad'')
                               [\<lparr>cat_id = 3, cat_name = ''General''\<rparr>]
                        else None) of
                     Some c \<Rightarrow> c
                   | None \<Rightarrow>
                      hd [\<lparr>cat_id = 3, cat_name = ''General''\<rparr>])))]"
    by (rule conjunct1 [OF category_fallback_nonempty]) simp_all
  have v1: "[cat_id
          (case (if js_includes (toLowerCase ''Slow mornings'') ''ai'' \<or> js_includes (toLowerCase ''Slow mornings'') ''automation''
                    \<or> js_includes (toLowerCase ''Tea and toast.'') ''artificial intelligence''
                then find (\<lambda>cat. js_includes (toLowerCase (cat_name cat)) ''ai'' \<or> js_includes (toLowerCase (cat_name cat)) ''automation'' \<or> js_includes (toLowerCase (cat_name cat)) ''tool'')
                       [\<lparr>cat_id = 3, cat_name = ''General''\<rparr>]
                else None) of
             Some c \<Rightarrow> c
           | None \<Rightarrow>
              (case (if js_includes (toLowerCase ''Slow mornings'') ''income'' \<or> js_includes (toLowerCase ''Slow mornings'') ''money''
                        \<or> js_includes (toLowerCase ''Tea and toast.'') ''passive income''
                    then find (\<lambda>cat. js_includes (toLowerCase (cat_name cat)) ''income'' \<or> js_includes (toLowerCase (cat_name cat)) ''business'' \<or> js_includes (toLowerCase (cat_name cat)) ''affiliate'')
                           [\<lparr>cat_id = 3, cat_name = ''General''\<rparr>]
                    else None) of
                 Some c \<Rightarrow> c
               | None \<Rightarrow>
                  (case (if js_includes (toLowerCase ''Slow mornings'') ''travel'' \<or> js_includes (toLowerCase ''Slow mornings'') ''nomad''
                            \<or> js_includes (toLowerCase ''Tea and toast.'') ''digital nomad''
                        then find (\<lambda>cat. js_includes (toLowerCase (cat_name cat)) ''nomad'' \<or> js_includes (toLowerCase (cat_name cat)) ''travel'' \<or> js_includes (toLowerCase (cat_name cat)) ''abroad'')
                               [\<lparr>cat_id = 3, cat_name = ''General''\<rparr>]
                        else None) of
                     Some c \<Rightarrow> c
                   | None \<Rightarrow>
                      hd [\<lparr>cat_id = 3, cat_name = ''General''\<rparr>])))] = [3]"
    by code_simp
  from e1 v1 have r1: "resolveCategories ''Slow mornings'' ''Tea and toast.'' [7, 9]
      [\<lparr>cat_id = 3, cat_name = ''General''\<rparr>] = [3]"
    by (rule trans)
  have e2: "resolveCategories ''AI tools for tea'' ''Tea and toast.'' []
      [\<lparr>cat_id = 1, cat_name = ''General''\<rparr>, \<lparr>cat_id = 7, cat_name = ''Automation''\<rparr>] =
     [cat_id
          (case (if js_includes (toLowerCase ''AI tools for tea'') ''ai'' \<or> js_includes (toLowerCase ''AI tools for tea'') ''automation''
                    \<or> js_includes (toLowerCase ''Tea and toast.'') ''artificial intelligence''
                then find (\<lambda>cat. js_includes (toLowerCase (cat_name cat)) ''ai'' \<or> js_includes (toLowerCase (cat_name cat)) ''automation'' \<or> js_includes (toLowerCase (cat_name cat)) ''tool'')
                       [\<lparr>cat_id = 1, cat_name = ''General''\<rparr>, \<lparr>cat_id = 7, cat_name = ''Automation''\<rparr>]
                else None) of
             Some c \<Rightarrow> c
           | None \<Rightarrow>
              (case (if js_includes (toLowerCase ''AI tools for tea'') ''income'' \<or> js_includes (toLowerCase ''AI tools for tea'') ''money''
                        \<or> js_includes (toLowerCase ''Tea and toast.'') ''passive income''
                    then find (\<lambda>cat. js_includes (toLowerCase (cat_name cat)) ''income'' \<or> js_includes (toLowerCase (cat_name cat)) ''business'' \<or> js_includes (toLowerCase (cat_name cat)) ''affiliate'')
                           [\<lparr>cat_id = 1, cat_name = ''General''\<rparr>, \<lparr>cat_id = 7, cat_name = ''Automation''\<rparr>]
                    else None) of
                 Some c \<Rightarrow> c
               | None \<Rightarrow>
                  (case (if js_includes (toLowerCase ''AI tools for tea'') ''travel'' \<or> js_includes (toLowerCase ''AI tools for tea'') ''nomad''
                            \<or> js_includes (toLowerCase ''Tea and toast.'') ''digital nomad''
                        then find (\<lambda>cat. js_includes (toLowerCase (cat_name cat)) ''nomad'' \<or> js_includes (toLowerCase (cat_name cat)) ''travel'' \<or> js_includes (toLowerCase (cat_name cat)) ''abroad'')
                               [\<lparr>cat_id = 1, cat_name = ''General''\<rparr>, \<lparr>cat_id = 7, cat_name = ''Automation''\<rparr>]
                        else None) of
                     Some c \<Rightarrow> c
                   | None \<Rightarrow>
                      hd [\<lparr>cat_id = 1, cat_name = ''General''\<rparr>, \<lparr>cat_id = 7, cat_name = ''Automation''\<rparr>])))]"
    by (rule conjunct1 [OF category_fallback_nonempty]) simp_all
  have v2: "[cat_id
          (case (if js_includes (toLowerCase ''AI tools for tea'') ''ai'' \<or> js_includes (toLowerCase ''AI tools for tea'') ''automation''
                    \<or> js_includes (toLowerCase ''Tea and toast.'') ''artificial intelligence''
                then find (\<lambda>cat. js_includes (toLowerCase (cat_name cat)) ''ai'' \<or> js_includes (toLowerCase (cat_name cat)) ''automation'' \<or> js_includes (toLowerCase (cat_name cat)) ''tool'')
                       [\<lparr>cat_id = 1, cat_name = ''General''\<rparr>, \<lparr>cat_id = 7, cat_name = ''Automation''\<rparr>]
                else None) of
             Some c \<Rightarrow> c
           | None \<Rightarrow>
              (case (if js_includes (toLowerCase ''AI tools for tea'') ''income'' \<or> js_includes (toLowerCase ''AI tools for tea'') ''money''
                        \<or> js_includes (toLowerCase ''Tea and toast.'') ''passive income''
                    then find (\<lambda>cat. js_includes (toLowerCase (cat_name cat)) ''income'' \<or> js_includes (toLowerCase (cat_name cat)) ''business'' \<or> js_includes (toLowerCase (cat_name cat)) ''affiliate'')
                           [\<lparr>cat_id = 1, cat_name = ''General''\<rparr>, \<lparr>cat_id = 7, cat_name = ''Automation''\<rparr>]
                    else None) of
                 Some c \<Rightarrow> c
               | None \<Rightarrow>
                  (case (if js_includes (toLowerCase ''AI tools for tea'') ''travel'' \<or> js_includes (toLowerCase ''AI tools for tea'') ''nomad''
                            \<or> js_includes (toLowerCase ''Tea and toast.'') ''digital nomad''
                        then find (\<lambda>cat. js_includes (toLowerCase (cat_name cat)) ''nomad'' \<or> js_includes (toLowerCase (cat_name cat)) ''travel'' \<or> js_includes (toLowerCase (cat_name cat)) ''abroad'')
                               [\<lparr>cat_id = 1, cat_name = ''General''\<rparr>, \<lparr>cat_id = 7, cat_name = ''Automation''\<rparr>]
                        else None) of
                     Some c \<Rightarrow> c
                   | None \<Rightarrow>
                      hd [\<lparr>cat_id = 1, cat_name = ''General''\<rparr>, \<lparr>cat_id = 7, cat_name = ''Automation''\<rparr>])))] = [7]"
    by code_simp
  from e2 v2 have r2: "resolveCategories ''AI tools for tea'' ''Tea and toast.'' []
      [\<lparr>cat_id = 1, cat_name = ''General''\<rparr>, \<lparr>cat_id = 7, cat_name = ''Automation''\<rparr>] = [7]"
    by (rule trans)
  have e3: "resolveCategories ''Money and travel'' ''Tea and toast.'' [2]
      [\<lparr>cat_id = 1, cat_name = ''General''\<rparr>, \<lparr>cat_id = 5, cat_name = ''Travel''\<rparr>] =
     [cat_id
          (case (if js_includes (toLowerCase ''Money and travel'') ''ai'' \<or> js_includes (toLowerCase ''Money and travel'') ''automation''
                    \<or> js_includes (toLowerCase ''Tea and toast.'') ''artificial intelligence''
                then find (\<lambda>cat. js_includes (toLowerCase (cat_name cat)) ''ai'' \<or> js_includes (toLowerCase (cat_name cat)) ''automation'' \<or> js_includes (toLowerCase (cat_name cat)) ''tool'')
                       [\<lparr>cat_id = 1, cat_name = ''General''\<rparr>, \<lparr>cat_id = 5, cat_name = ''Travel''\<rparr>]
                else None) of
             Some c \<Rightarrow> c
           | None \<Rightarrow>
              (case (if js_includes (toLowerCase ''Money and travel'') ''income'' \<or> js_includes (toLowerCase ''Money and travel'') ''money''
                        \<or> js_includes (toLowerCase ''Tea and toast.'') ''passive income''
                    then find (\<lambda>cat. js_includes (toLowerCase (cat_name cat)) ''income'' \<or> js_includes (toLowerCase (cat_name cat)) ''business'' \<or> js_includes (toLowerCase (cat_name cat)) ''affiliate'')
                           [\<lparr>cat_id = 1, cat_name = ''General''\<rparr>, \<lparr>cat_id = 5, cat_name = ''Travel''\<rparr>]
                    else None) of
                 Some c \<Rightarrow> c
               | None \<Rightarrow>
                  (case (if js_includes (toLowerCase ''Money and travel'') ''travel'' \<or> js_includes (toLowerCase ''Money and travel'') ''nomad''
                            \<or> js_includes (toLowerCase ''Tea and toast.'') ''digital nomad''
                        then find (\<lambda>cat. js_includes (toLowerCase (cat_name cat)) ''nomad'' \<or> js_includes (toLowerCase (cat_name cat)) ''travel'' \<or> js_includes (toLowerCase (cat_name cat)) ''abroad'')
                               [\<lparr>cat_id = 1, cat_name = ''General''\<rparr>, \<lparr>cat_id = 5, cat_name = ''Travel''\<rparr>]
                        else None) of
                     Some c \<Rightarrow> c
                   | None \<Rightarrow>
                      hd [\<lparr>cat_id = 1, cat_name = ''General''\<rparr>, \<lparr>cat_id = 5, cat_name = ''Travel''\<rparr>])))]"
    by (rule conjunct1 [OF category_fallback_nonempty]) simp_all
  have v3: "[cat_id
          (case (if js_includes (toLowerCase ''Money and travel'') ''ai'' \<or> js_includes (toLowerCase ''Money and travel'') ''automation''
                    \<or> js_includes (toLowerCase ''Tea and toast.'') ''artificial intelligence''
                then find (\<lambda>cat. js_includes (toLowerCase (cat_name cat)) ''ai'' \<or> js_includes (toLowerCase (cat_name cat)) ''automation'' \<or> js_includes (toLowerCase (cat_name cat)) ''tool'')
                       [\<lparr>cat_id = 1, cat_name = ''General''\<rparr>, \<lparr>cat_id = 5, cat_name = ''Travel''\<rparr>]
                else None) of
             Some c \<Rightarrow> c
           | None \<Rightarrow>
              (case (if js_includes (toLowerCase ''Money and travel'') ''income'' \<or> js_includes (toLowerCase ''Money and travel'') ''money''
                        \<or> js_includes (toLowerCase ''Tea and toast.'') ''passive income''
                    then find (\<lambda>cat. js_includes (toLowerCase (cat_name cat)) ''income'' \<or> js_includes (toLowerCase (cat_name cat)) ''business'' \<or> js_includes (toLowerCase (cat_name cat)) ''affiliate'')
                           [\<lparr>cat_id = 1, cat_name = ''General''\<rparr>, \<lparr>cat_id = 5, cat_name = ''Travel''\<rparr>]
                    else None) of
                 Some c \<Rightarrow> c
               | None \<Rightarrow>
                  (case (if js_includes (toLowerCase ''Money and travel'') ''travel'' \<or> js_includes (toLowerCase ''Money and travel'') ''nomad''
                            \<or> js_includes (toLowerCase ''Tea and toast.'') ''digital nomad''
                        then find (\<lambda>cat. js_includes (toLowerCase (cat_name cat)) ''nomad'' \<or> js_includes (toLowerCase (cat_name cat)) ''travel'' \<or> js_includes (toLowerCase (cat_name cat)) ''abroad'')
                               [\<lparr>cat_id = 1, cat_name = ''General''\<rparr>, \<lparr>cat_id = 5, cat_name = ''Travel''\<rparr>]
                        else None) of
                     Some c \<Rightarrow> c
                   | None \<Rightarrow>
                      hd [\<lparr>cat_id = 1, cat_name = ''General''\<rparr>, \<lparr>cat_id = 5, cat_name = ''Travel''\<rparr>])))] = [5]"
    by code_simp
  from e3 v3 have r3: "resolveCategories ''Money and travel'' ''Tea and toast.'' [2]
      [\<lparr>cat_id = 1, cat_name = ''General''\<rparr>, \<lparr>cat_id = 5, cat_name = ''Travel''\<rparr>] = [5]"
    by (rule trans)
  from r1 r2 r3 show ?thesis by (intro conjI)
qed

subsection \<open>The create-post loop\<close>

lemma createPostLoop_events_unfold:
  "snd (snd (createPostLoop post creds wpData attempt held)) =
     (if attempt \<le> MAX_ATTEMPTS
      then CreatePost attempt (attemptTimeout attempt) creds wpData
           # (if stops (post attempt) then []
              else (if attempt < MAX_ATTEMPTS then [Sleep (retryDelay attempt)] else [])
                   @ snd (snd (createPostLoop post creds wpData (attempt + 1)
                                 (case post attempt of Reject errorMsg \<Rightarrow> held
                                                     | Resolve r \<Rightarrow> Some (r, True)))))
      else [])"
proof (cases "attempt \<le> MAX_ATTEMPTS")
  case False
  then show ?thesis
    by (simp add: createPostLoop.simps [of post creds wpData attempt held])
next
  case le: True
  show ?thesis
  proof (cases "post attempt")
    case (Reject msg)
    with le show ?thesis
      by (simp add: createPostLoop.simps [of post creds wpData attempt held] Let_def stops_def
            case_prod_unfold split del: if_split)
  next
    case (Resolve r)
    show ?thesis
    proof (cases "ok r")
      case True
      with le Resolve show ?thesis
        by (simp add: createPostLoop.simps [of post creds wpData attempt held] Let_def stops_def
              split del: if_split)
    next
      case notok: False
      show ?thesis
      proof (cases "resp_text r")
        case None
        with le Resolve notok show ?thesis
          by (simp add: createPostLoop.simps [of post creds wpData attempt held] Let_def stops_def
                readText_def case_prod_unfold split del: if_split)
      next
        case (Some errorText)
        show ?thesis
        proof (cases "resp_status r = 401 \<or> resp_status r = 403")
          case True
          with le Resolve notok Some show ?thesis
            by (simp add: createPostLoop.simps [of post creds wpData attempt held] Let_def
                  stops_def readText_def split del: if_split)
        next
          case False
          with le Resolve notok Some show ?thesis
            by (simp add: createPostLoop.simps [of post creds wpData attempt held] Let_def
                  stops_def readText_def case_prod_unfold split del: if_split)
        qed
      qed
    qed
  qed
qed

lemma createPostLoop_events_held:
  "snd (snd (createPostLoop post creds wpData attempt held))
   = snd (snd (createPostLoop post creds wpData attempt held'))"
proof (induction "Suc MAX_ATTEMPTS - attempt" arbitrary: attempt held held')
  case 0
  then have "\<not> attempt \<le> MAX_ATTEMPTS" by simp
  then show ?case
    by (simp add: createPostLoop_events_unfold [of post creds wpData attempt])
next
  case (Suc n)
  then have n: "n = Suc MAX_ATTEMPTS - (attempt + 1)" by simp
  have step: "\<And>h h'. snd (snd (createPostLoop post creds wpData (attempt + 1) h))
            = snd (snd (createPostLoop post creds wpData (attempt + 1) h'))"
    by (rule Suc.hyps(1) [OF n])
  show ?case
    unfolding createPostLoop_events_unfold [of post creds wpData attempt held]
      createPostLoop_events_unfold [of post creds wpData attempt held']
      step [of "case post attempt of Reject errorMsg \<Rightarrow> held | Resolve r \<Rightarrow> Some (r, True)"
               "case post attempt of Reject errorMsg \<Rightarrow> held' | Resolve r \<Rightarrow> Some (r, True)"]
    by (rule refl)
qed

lemma postEvents_unfold:
  "postEvents post creds wpData attempt =
     (if attempt \<le> MAX_ATTEMPTS
      then CreatePost attempt (attemptTimeout attempt) creds wpData
           # (if stops (post attempt) then []
              else (if attempt < MAX_ATTEMPTS then [Sleep (retryDelay attempt)] else [])
                   @ postEvents post creds wpData (attempt + 1))
      else [])"
  unfolding postEvents_def
    createPostLoop_events_unfold [of post creds wpData attempt None]
    createPostLoop_events_held [of post creds wpData "attempt + 1"
          "case post attempt of Reject errorMsg \<Rightarrow> None | Resolve r \<Rightarrow> Some (r, True)" None]
  by (rule refl)

lemma firstStop_step:
  "a \<le> 8 \<Longrightarrow> firstStop post a = (if stops (post a) then a else firstStop post (a + 1))"
  by (simp add: firstStop_def upt_conv_Cons)

lemma firstStop_9: "firstStop post 9 = 8"
  by (simp add: firstStop_def)

lemma postEvents_from:
  "1 \<le> a \<Longrightarrow> a \<le> 8 \<Longrightarrow>
   a \<le> firstStop post a \<and> firstStop post a \<le> 8 \<and>
   postEvents post creds wpData a =
     concat (map (\<lambda>k. [CreatePost k (attemptTimeout k) creds wpData, Sleep (retryDelay k)])
               [a..<firstStop post a])
     @ [CreatePost (firstStop post a) (attemptTimeout (firstStop post a)) creds wpData]"
proof (induction "8 - a" arbitrary: a)
  case 0
  then have a: "a = 8" by simp
  have n: "firstStop post 8 = 8"
    by (simp add: firstStop_step firstStop_9)
  have "postEvents post creds wpData 9 = []"
    by (simp add: postEvents_unfold [of post creds wpData 9] MAX_ATTEMPTS_def)
  then have "postEvents post creds wpData 8 = [CreatePost 8 (attemptTimeout 8) creds wpData]"
    by (simp add: postEvents_unfold [of post creds wpData 8] MAX_ATTEMPTS_def)
  with n show ?case unfolding a by simp
next
  case (Suc n)
  then have lt: "a < 8" and n: "n = 8 - (a + 1)" and le: "1 \<le> a + 1" "a + 1 \<le> 8" by simp_all
  note IH = Suc.hyps(1) [OF n le]
  have fs: "firstStop post a = (if stops (post a) then a else firstStop post (a + 1))"
    using lt by (simp add: firstStop_step)
  show ?case
  proof (cases "stops (post a)")
    case True
    with fs lt show ?thesis
      by (simp add: postEvents_unfold [of post creds wpData a] MAX_ATTEMPTS_def)
  next
    case False
    with fs have eq: "firstStop post a = firstStop post (a + 1)" by simp
    from IH have up: "[a..<firstStop post (a + 1)] = a # [a + 1..<firstStop post (a + 1)]"
      by (simp add: upt_conv_Cons)
    have ev: "postEvents post creds wpData a =
        CreatePost a (attemptTimeout a) creds wpData # Sleep (retryDelay a)
          # postEvents post creds wpData (a + 1)"
      using False lt by (simp add: postEvents_unfold [of post creds wpData a] MAX_ATTEMPTS_def)
    from IH show ?thesis unfolding eq ev up by simp
  qed
qed

lemma processTags_no_post: "filter isCreatePost (snd (processTags w i dynamicTags)) = []"
  by (induction dynamicTags arbitrary: i)
     (simp_all add: case_prod_unfold split: fetched.splits list.splits)

lemma uploadFeaturedImage_no_post: "filter isCreatePost (snd (uploadFeaturedImage w m)) = []"
  by (simp add: uploadFeaturedImage_def Let_def split: option.splits fetched.splits)

lemma validateTags_no_post: "filter isCreatePost (snd (validateTags w ids)) = []"
  by (simp add: validateTags_def split: fetched.splits)

lemma authLoop_no_post: "filter isCreatePost (snd (authLoop probe creds authAttempt)) = []"
proof (induction probe creds authAttempt rule: authLoop.induct)
  case (1 probe creds authAttempt)
  show ?case
  proof (cases "authAttempt \<le> 3")
    case False
    then show ?thesis by (simp add: authLoop.simps [of probe creds authAttempt])
  next
    case True
    show ?thesis
    proof (cases "probe authAttempt")
      case Rejected
      with True "1.IH"(1) show ?thesis
        by (simp add: authLoop.simps [of probe creds authAttempt] case_prod_unfold)
    next
      case (Failed x)
      with True "1.IH"(2) show ?thesis
        by (simp add: authLoop.simps [of probe creds authAttempt] case_prod_unfold)
    next
      case (Fetched x)
      with True show ?thesis
        by (simp add: authLoop.simps [of probe creds authAttempt])
    qed
  qed
qed

lemma publishAuthenticated_posts:
  "\<exists>validCategoryIds validTagIds.
     filter isCreatePost (snd (snd (publishAuthenticated w st blog req creds)))
     = filter isCreatePost (postEvents (createPost w) creds
         (buildWordpressData blog req (js_match imagePattern (content blog))
            validCategoryIds validTagIds) 1)"
  unfolding publishAuthenticated_def finishPublish_def Let_def postEvents_def
  by (simp add: case_prod_unfold processTags_no_post uploadFeaturedImage_no_post
        validateTags_no_post split: option.splits sum.splits) blast

lemma attemptsMade_firstStop: "attemptsMade post = firstStop post 1"
  by (simp add: attemptsMade_def firstStop_def)

lemma attemptsMade_earlier:
  assumes "1 \<le> k" and "k < attemptsMade post"
  shows "\<not> stops (post k)"
proof (cases "find (\<lambda>k. stops (post k)) [1..<9]")
  case None
  then have "\<forall>x \<in> set [1..<9]. \<not> stops (post x)" by (simp add: find_None_iff)
  moreover from None assms have "k \<in> set [1..<9]" by (simp add: attemptsMade_def)
  ultimately show ?thesis by blast
next
  case (Some j)
  then obtain i where i: "i < length [1..<9]" "j = [1..<9] ! i"
      "\<forall>i' < i. \<not> stops (post ([1..<9] ! i'))"
    unfolding find_Some_iff by blast
  from Some assms have kj: "k < j" by (simp add: attemptsMade_def)
  from i(1,2) have j: "j = 1 + i" by simp
  from kj j assms(1) have "k - 1 < i" by simp
  with i(3) have "\<not> stops (post ([1..<9] ! (k - 1)))" by blast
  moreover from i(1) \<open>k - 1 < i\<close> assms(1) have "[1..<9] ! (k - 1) = k" by simp
  ultimately show ?thesis by simp
qed

lemma attemptsMade_stops:
  assumes "attemptsMade post < 8"
  shows "stops (post (attemptsMade post))"
proof (cases "find (\<lambda>k. stops (post k)) [1..<9]")
  case None
  with assms show ?thesis by (simp add: attemptsMade_def)
next
  case (Some j)
  then have "stops (post j)" unfolding find_Some_iff by blast
  with Some show ?thesis by (simp add: attemptsMade_def)
qed

lemma createPostLoop_success_unfold:
  "fst (createPostLoop post creds wpData attempt held) =
     (if attempt \<le> MAX_ATTEMPTS
      then (if stops (post attempt)
            then (case post attempt of Reject errorMsg \<Rightarrow> False | Resolve r \<Rightarrow> ok r)
            else fst (createPostLoop post creds wpData (attempt + 1)
                        (case post attempt of Reject errorMsg \<Rightarrow> held
                                            | Resolve r \<Rightarrow> Some (r, True))))
      else False)"
proof (cases "attempt \<le> MAX_ATTEMPTS")
  case False
  then show ?thesis
    by (simp add: createPostLoop.simps [of post creds wpData attempt held])
next
  case le: True
  show ?thesis
  proof (cases "post attempt")
    case (Reject msg)
    with le show ?thesis
      by (simp add: createPostLoop.simps [of post creds wpData attempt held] Let_def stops_def
            case_prod_unfold split del: if_split)
  next
    case (Resolve r)
    show ?thesis
    proof (cases "ok r")
      case True
      with le Resolve show ?thesis
        by (simp add: createPostLoop.simps [of post creds wpData attempt held] Let_def stops_def
              split del: if_split)
    next
      case notok: False
      show ?thesis
      proof (cases "resp_text r")
        case None
        with le Resolve notok show ?thesis
          by (simp add: createPostLoop.simps [of post creds wpData attempt held] Let_def stops_def
                readText_def case_prod_unfold split del: if_split)
      next
        case (Some errorText)
        show ?thesis
        proof (cases "resp_status r = 401 \<or> resp_status r = 403")
          case True
          with le Resolve notok Some show ?thesis
            by (simp add: createPostLoop.simps [of post creds wpData attempt held] Let_def
                  stops_def readText_def split del: if_split)
        next
          case False
          with le Resolve notok Some show ?thesis
            by (simp add: createPostLoop.simps [of post creds wpData attempt held] Let_def
                  stops_def readText_def case_prod_unfold split del: if_split)
        qed
      qed
    qed
  qed
qed

lemma filter_posts_blocks:
  "length (filter isCreatePost
     (concat (map (\<lambda>k. [CreatePost k (f k) creds wpData, Sleep (g k)]) ks))) = length ks"
  by (induction ks) simp_all

lemma postEvents_count: "length (filter isCreatePost (postEvents post creds wpData 1)) \<le> 8"
proof -
  from postEvents_from [of 1 post creds wpData]
  have b: "1 \<le> firstStop post 1" "firstStop post 1 \<le> 8"
    and e: "postEvents post creds wpData 1 =
     concat (map (\<lambda>k. [CreatePost k (attemptTimeout k) creds wpData, Sleep (retryDelay k)])
               [1..<firstStop post 1])
     @ [CreatePost (firstStop post 1) (attemptTimeout (firstStop post 1)) creds wpData]"
    by simp_all
  show ?thesis unfolding e using b by (simp add: filter_posts_blocks)
qed

lemma publish_posts:
  "filter isCreatePost (snd (snd (publish w st ident req))) = []
   \<or> (\<exists>blog creds validCategoryIds validTagIds.
         getBlog st ident = Some blog
       \<and> filter isCreatePost (snd (snd (publish w st ident req)))
         = filter isCreatePost (postEvents (createPost w) creds
             (buildWordpressData blog req (js_match imagePattern (content blog))
                validCategoryIds validTagIds) 1))"
proof (cases "getBlog st ident")
  case None
  then show ?thesis by (simp add: publish_def)
next
  case (Some blog)
  show ?thesis
  proof (cases "completeCredentials
                  (resolveCredentials (fallbackCredentials w) req (wordpressCredentials st))")
    case None
    with Some show ?thesis by (simp add: publish_def)
  next
    case creds: (Some creds)
    show ?thesis
    proof (cases "fst (authLoop (authProbe w) creds 1)")
      case False
      with Some creds show ?thesis
        by (simp add: publish_def case_prod_unfold authLoop_no_post)
    next
      case True
      from publishAuthenticated_posts [of w st blog req creds]
      obtain cs ts where
        "filter isCreatePost (snd (snd (publishAuthenticated w st blog req creds)))
         = filter isCreatePost (postEvents (createPost w) creds
             (buildWordpressData blog req (js_match imagePattern (content blog)) cs ts) 1)"
        by blast
      with True Some creds show ?thesis
        by (simp add: publish_def case_prod_unfold authLoop_no_post) blast
    qed
  qed
qed

subsection \<open>The authentication probe\<close>

lemma authLoop_closed:
  "authLoop probe creds 1 =
     (if probeOk (probe 1) then (True, [AuthProbe 1 creds])
      else if probeOk (probe 2) then (True, [AuthProbe 1 creds, Sleep 1000, AuthProbe 2 creds])
      else (probeOk (probe 3),
            [AuthProbe 1 creds, Sleep 1000, AuthProbe 2 creds, Sleep 2000, AuthProbe 3 creds]))"
  by (simp add: authLoop.simps [of probe creds 1] authLoop.simps [of probe creds 2]
        authLoop.simps [of probe creds 3] authLoop.simps [of probe creds 4] probeOk_def
        del: One_nat_def split: fetched.splits)

lemma postEvents_kinds:
  assumes "e \<in> set (postEvents post creds wpData 1)"
  shows "(\<exists>d. e = Sleep d) \<or> (\<exists>k t. e = CreatePost k t creds wpData)"
proof -
  from postEvents_from [of 1 post creds wpData]
  have "postEvents post creds wpData 1 =
     concat (map (\<lambda>k. [CreatePost k (attemptTimeout k) creds wpData, Sleep (retryDelay k)])
               [1..<firstStop post 1])
     @ [CreatePost (firstStop post 1) (attemptTimeout (firstStop post 1)) creds wpData]"
    by simp
  with assms show ?thesis by auto
qed

lemma postEvents_no_auth: "filter isAuthProbe (postEvents post creds wpData 1) = []"
proof -
  have "\<not> isAuthProbe e" if "e \<in> set (postEvents post creds wpData 1)" for e
    using postEvents_kinds [OF that] by auto
  then show ?thesis unfolding filter_empty_conv by blast
qed

lemma processTags_no_auth: "filter isAuthProbe (snd (processTags w i dynamicTags)) = []"
  by (induction dynamicTags arbitrary: i)
     (simp_all add: case_prod_unfold split: fetched.splits list.splits)

lemma uploadFeaturedImage_no_auth: "filter isAuthProbe (snd (uploadFeaturedImage w m)) = []"
  by (simp add: uploadFeaturedImage_def Let_def split: option.splits fetched.splits)

lemma validateTags_no_auth: "filter isAuthProbe (snd (validateTags w ids)) = []"
  by (simp add: validateTags_def split: fetched.splits)

lemma publishAuthenticated_no_auth:
  "filter isAuthProbe (snd (snd (publishAuthenticated w st blog req creds))) = []"
  unfolding publishAuthenticated_def finishPublish_def Let_def
  using postEvents_no_auth [unfolded postEvents_def]
  by (simp add: case_prod_unfold processTags_no_auth uploadFeaturedImage_no_auth
        validateTags_no_auth del: One_nat_def split: option.splits sum.splits)

lemma publish_probes: "length (filter isAuthProbe (snd (snd (publish w st ident req)))) \<le> 3"
proof (cases "getBlog st ident")
  case None
  then show ?thesis by (simp add: publish_def)
next
  case (Some blog)
  show ?thesis
  proof (cases "completeCredentials
                  (resolveCredentials (fallbackCredentials w) req (wordpressCredentials st))")
    case None
    with Some show ?thesis by (simp add: publish_def)
  next
    case creds: (Some creds)
    have "length (filter isAuthProbe (snd (authLoop (authProbe w) creds 1))) \<le> 3"
      by (simp add: authLoop_closed del: One_nat_def)
    with Some creds show ?thesis
      by (simp add: publish_def case_prod_unfold publishAuthenticated_no_auth del: One_nat_def)
  qed
qed

text \<open>
  C5. The authentication probe is sent at most 3 times, a failed attempt k before the third
  being followed by a wait of k * 1000 ms; when all three attempts fail, the publish answers
  401 with needsCredentials true, the blog store is unchanged, and nothing but the three
  probes and the two waits has happened: no tag generation, no request to the taxonomy or
  media endpoints, no create-post request.
\<close>

theorem auth_probe_three_attempts:
  "authLoop probe creds 1 =
     (if probeOk (probe 1) then (True, [AuthProbe 1 creds])
      else if probeOk (probe 2) then (True, [AuthProbe 1 creds, Sleep 1000, AuthProbe 2 creds])
      else (probeOk (probe 3),
            [AuthProbe 1 creds, Sleep 1000, AuthProbe 2 creds, Sleep 2000, AuthProbe 3 creds]))
   \<and> length (filter isAuthProbe (snd (snd (publish w st ident req)))) \<le> 3
   \<and> (getBlog st ident = Some blog
        \<and> completeCredentials
             (resolveCredentials (fallbackCredentials w) req (wordpressCredentials st)) = Some c
        \<and> \<not> probeOk (authProbe w 1) \<and> \<not> probeOk (authProbe w 2) \<and> \<not> probeOk (authProbe w 3)
      \<longrightarrow> publish w st ident req =
            (authFailedReply, st,
             [AuthProbe 1 c, Sleep 1000, AuthProbe 2 c, Sleep 2000, AuthProbe 3 c]))"
proof -
  have "publish w st ident req =
            (authFailedReply, st,
             [AuthProbe 1 c, Sleep 1000, AuthProbe 2 c, Sleep 2000, AuthProbe 3 c])"
    if "getBlog st ident = Some blog"
      "completeCredentials
             (resolveCredentials (fallbackCredentials w) req (wordpressCredentials st)) = Some c"
      "\<not> probeOk (authProbe w 1)" "\<not> probeOk (authProbe w 2)" "\<not> probeOk (authProbe w 3)"
    using that by (simp add: publish_def authLoop_closed authFailedReply_def del: One_nat_def)
  with authLoop_closed [of probe creds] publish_probes [of w st ident req]
  show ?thesis by blast
qed

theorem auth_probe_three_attempts_witness:
  "publish lockedOutWorld teaStorage ''b1'' teaRequest =
     (authFailedReply, teaStorage,
      [AuthProbe 1 storedCreds, Sleep 1000, AuthProbe 2 storedCreds, Sleep 2000,
       AuthProbe 3 storedCreds])"
proof -
  have b: "getBlog teaStorage ''b1'' = Some teaBlog"
    by (simp add: getBlog_def teaStorage_def)
  have c: "completeCredentials (resolveCredentials (fallbackCredentials lockedOutWorld) teaRequest
             (wordpressCredentials teaStorage)) = Some storedCreds"
    by (simp add: completeCredentials_def resolveCredentials_def teaRequest_def teaStorage_def
          storedCreds_def truthy_def js_or_def)
  have p: "\<not> probeOk (authProbe lockedOutWorld 1) \<and> \<not> probeOk (authProbe lockedOutWorld 2)
         \<and> \<not> probeOk (authProbe lockedOutWorld 3)"
    by (simp add: lockedOutWorld_def probeOk_def)
  from auth_probe_three_attempts [of _ _ lockedOutWorld teaStorage "''b1''" teaRequest teaBlog
      storedCreds] b c p
  show ?thesis by blast
qed

subsection \<open>The publish of one blog, up to the create-post loop\<close>

lemma tea_html: "markdownToHtml (content teaBlog) = ''<p>Tea is a drink enjoyed by many people.</p>''"
  by code_simp

lemma tea_excerpt: "extractExcerpt (content teaBlog) = ''Tea is a drink enjoyed by many people.''"
  by code_simp

lemma tea_match: "js_match imagePattern (content teaBlog) = Some [''cup'', ''https://img.example/cup.png'']"
  by code_simp

lemma tea_tags: "generateTags (tagCompletion teaWorld) teaBlog = [''green tea'', ''brewing'']"
  by code_simp

lemma tea_categories:
  "resolveCategories (title teaBlog) (content teaBlog)
     (requestedCategoryIds (req_seoCategoryIds teaRequest) (req_categoryId teaRequest))
     (fetchCategories teaWorld) = [3]"
  by code_simp

lemma decimal_small: "decimal 77 = ''77''" "decimal 99 = ''99''" "decimal 2 = ''2''"
  by code_simp+

lemma tea_show: "numberToString unsafe 77 = ''77''" "numberToString unsafe 99 = ''99''"
  by (simp_all add: numberToString_def MAX_SAFE_INTEGER_def decimal_small)

lemma tea_sent:
  "buildWordpressData teaBlog teaRequest (Some [''cup'', ''https://img.example/cup.png'']) [3] [11]
   = teaSent"
  by (simp add: buildWordpressData_def Let_def tea_html tea_excerpt teaSent_def grp_def
        truthy_def teaRequest_def) (simp add: teaBlog_def)

lemma tea_ids: "processTags (teaWorld\<lparr>createPost := post\<rparr>) 0 [''green tea'', ''brewing''] =
    ([11, 12], [TagSearch ''green tea'', TagSearch ''brewing'', TagCreate ''brewing''])"
  by (simp add: teaWorld_def)

lemma tea_upload:
  "uploadFeaturedImage (teaWorld\<lparr>createPost := post\<rparr>)
     (Some [''cup'', ''https://img.example/cup.png'']) =
     (Some 42, [ImageDownload ''https://img.example/cup.png'', MediaUpload ''cup''])"
  by (simp add: uploadFeaturedImage_def grp_def teaWorld_def)

lemma tea_valid_tags: "validateTags (teaWorld\<lparr>createPost := post\<rparr>) [11, 12] = ([11], [FetchTags])"
  by (simp add: validateTags_def teaWorld_def)

lemma tea_fetch: "fetchCategories (teaWorld\<lparr>createPost := post\<rparr>) = fetchCategories teaWorld"
  by (simp add: fetchCategories_def)

lemma tea_authenticated:
  "publishAuthenticated (teaWorld\<lparr>createPost := post\<rparr>) teaStorage teaBlog teaRequest storedCreds =
     finishPublish (teaWorld\<lparr>createPost := post\<rparr>) teaStorage teaBlog teaRequest [11, 12] teaBefore
       (createPostLoop post storedCreds teaSent 1 None)"
  unfolding publishAuthenticated_def Let_def
  by (simp add: tea_tags tea_match tea_fetch tea_categories tea_ids tea_upload tea_sent
        tea_valid_tags teaBefore_def del: One_nat_def processTags.simps)

lemma tea_publish_with:
  "publish (teaWorld\<lparr>createPost := post\<rparr>) teaStorage ''b1'' teaRequest =
     (case finishPublish (teaWorld\<lparr>createPost := post\<rparr>) teaStorage teaBlog teaRequest [11, 12]
             teaBefore (createPostLoop post storedCreds teaSent 1 None) of
        (rep, st', evs) \<Rightarrow> (rep, st', AuthProbe 1 storedCreds # evs))"
proof -
  have b: "getBlog teaStorage ''b1'' = Some teaBlog"
    by (simp add: getBlog_def teaStorage_def)
  have c: "completeCredentials (resolveCredentials (fallbackCredentials teaWorld)
             teaRequest (wordpressCredentials teaStorage)) = Some storedCreds"
    by (simp add: completeCredentials_def resolveCredentials_def teaRequest_def teaStorage_def
          storedCreds_def truthy_def js_or_def)
  have a: "authLoop (authProbe teaWorld) storedCreds 1 = (True, [AuthProbe 1 storedCreds])"
    by (simp add: authLoop_closed probeOk_def teaWorld_def del: One_nat_def)
  show ?thesis
    by (simp add: publish_def b c a tea_authenticated del: One_nat_def)
qed

lemma tea_publish:
  "publish teaWorld teaStorage ''b1'' teaRequest =
     (\<lparr>http_status = 200,
       body = PublishedBody ''https://wp.example/tea'' ''2025-01-01T00:00:00.000Z'' (Some 99)
                [11, 12] None\<rparr>,
      teaStorage\<lparr>blogs := (blogs teaStorage)(''b1'' \<mapsto> teaPublished)\<rparr>,
      AuthProbe 1 storedCreds # teaBefore
        @ [CreatePost 1 30000 storedCreds teaSent, ScheduleSourceBackup])"
proof -
  have w: "teaWorld\<lparr>createPost := (\<lambda>attempt. Resolve createdPost)\<rparr> = teaWorld"
    by (simp add: teaWorld_def)
  have l: "createPostLoop (\<lambda>attempt. Resolve createdPost) storedCreds teaSent 1 None =
     (True, Some (createdPost, False), [CreatePost 1 30000 storedCreds teaSent])"
    by (simp add: createPostLoop.simps [of _ _ _ 1] createdPost_def ok_def
          MAX_ATTEMPTS_def attemptTimeout_def del: One_nat_def)
  have f: "finishPublish teaWorld teaStorage teaBlog teaRequest [11, 12] teaBefore
      (True, Some (createdPost, False), [CreatePost 1 30000 storedCreds teaSent]) =
     (\<lparr>http_status = 200,
       body = PublishedBody ''https://wp.example/tea'' ''2025-01-01T00:00:00.000Z'' (Some 99)
                [11, 12] None\<rparr>,
      teaStorage\<lparr>blogs := (blogs teaStorage)(''b1'' \<mapsto> teaPublished)\<rparr>,
      teaBefore @ [CreatePost 1 30000 storedCreds teaSent, ScheduleSourceBackup])"
    by (simp add: finishPublish_def teaWorld_def createdPost_def ok_def readJson_def
          updateBlog_def Let_def teaStorage_def teaBlog_def teaPublished_def tea_show
          teaRequest_def)
  from tea_publish_with [of "\<lambda>attempt. Resolve createdPost"] show ?thesis
    unfolding w l f by simp
qed

lemma createPostLoop_held_unfold:
  "fst (snd (createPostLoop post creds wpData attempt held)) =
     (if attempt \<le> MAX_ATTEMPTS
      then (if stops (post attempt)
            then (case post attempt of Reject errorMsg \<Rightarrow> None
                                     | Resolve r \<Rightarrow> Some (r, \<not> ok r))
            else fst (snd (createPostLoop post creds wpData (attempt + 1)
                        (case post attempt of Reject errorMsg \<Rightarrow> held
                                            | Resolve r \<Rightarrow> Some (r, True)))))
      else held)"
proof (cases "attempt \<le> MAX_ATTEMPTS")
  case False
  then show ?thesis
    by (simp add: createPostLoop.simps [of post creds wpData attempt held])
next
  case le: True
  show ?thesis
  proof (cases "post attempt")
    case (Reject msg)
    with le show ?thesis
      by (simp add: createPostLoop.simps [of post creds wpData attempt held] Let_def stops_def
            case_prod_unfold split del: if_split)
  next
    case (Resolve r)
    show ?thesis
    proof (cases "ok r")
      case True
      with le Resolve show ?thesis
        by (simp add: createPostLoop.simps [of post creds wpData attempt held] Let_def stops_def
              split del: if_split)
    next
      case notok: False
      show ?thesis
      proof (cases "resp_text r")
        case None
        with le Resolve notok show ?thesis
          by (simp add: createPostLoop.simps [of post creds wpData attempt held] Let_def stops_def
                readText_def case_prod_unfold split del: if_split)
      next
        case (Some errorText)
        show ?thesis
        proof (cases "resp_status r = 401 \<or> resp_status r = 403")
          case True
          with le Resolve notok Some show ?thesis
            by (simp add: createPostLoop.simps [of post creds wpData attempt held] Let_def
                  stops_def readText_def split del: if_split)
        next
          case False
          with le Resolve notok Some show ?thesis
            by (simp add: createPostLoop.simps [of post creds wpData attempt held] Let_def
                  stops_def readText_def case_prod_unfold split del: if_split)
        qed
      qed
    qed
  qed
qed

lemma finishPublish_200:
  assumes "http_status (fst (finishPublish w st blog req ids before outcome)) = 200"
    and "blogs st (blogId blog) = Some blog"
  shows "\<exists>r publishedPost. fst outcome \<and> fst (snd outcome) = Some (r, False)
           \<and> resp_json r = Inr publishedPost
           \<and> fst (snd (finishPublish w st blog req ids before outcome)) =
               st\<lparr>blogs := (blogs st)(blogId blog \<mapsto>
                  blog\<lparr>status := ''published'',
                       wordpressUrl := Some (post_link publishedPost),
                       wordpressPostId := Some (numberToString (unsafeDigits w) (post_id publishedPost)),
                       publishedAt := Some (clock w 0),
                       categoryId := map_option (numberToString (unsafeDigits w)) (req_categoryId req),
                       tagIds := Some ids,
                       metaDescription := req_metaDescription req\<rparr>)\<rparr>"
proof -
  obtain publishSuccess held postEvents where o: "outcome = (publishSuccess, held, postEvents)"
    by (cases outcome) auto
  show ?thesis
  proof (cases "\<not> publishSuccess \<or> \<not> (case held of None \<Rightarrow> False | Some h \<Rightarrow> ok (fst h))")
    case True
    with assms(1) show ?thesis
      unfolding o finishPublish_def Let_def by (simp add: failedToPublish_def)
  next
    case False
    then obtain r used where h: "held = Some (r, used)" and s: publishSuccess
      by (cases held) auto
    show ?thesis
    proof (cases "readJson (r, used)")
      case (Inl message)
      with assms(1) False h show ?thesis
        unfolding o finishPublish_def Let_def by (simp add: failedToPublish_def)
    next
      case (Inr publishedPost)
      then have u: "used = False" and j: "resp_json r = Inr publishedPost"
        by (auto simp: readJson_def split: if_splits)
      from False h s Inr assms(2) u j show ?thesis
        unfolding o finishPublish_def Let_def by (simp add: updateBlog_def Let_def)
    qed
  qed
qed

subsection \<open>The create-post requests of a publish\<close>

lemma finishPublish_events:
  "snd (snd (finishPublish w st blog req ids before outcome)) =
     before @ snd (snd outcome)
     @ (if http_status (fst (finishPublish w st blog req ids before outcome)) = 200
        then [ScheduleSourceBackup] else [])"
proof -
  obtain publishSuccess held evs where o: "outcome = (publishSuccess, held, evs)"
    by (cases outcome) auto
  show ?thesis
    unfolding o finishPublish_def Let_def
    by (simp add: failedToPublish_def case_prod_unfold split: option.splits sum.splits)
qed

lemma publishAuthenticated_unfold:
  "publishAuthenticated w st blog req creds =
     finishPublish w st blog req (fst (processTags w 0 (generateTags (tagCompletion w) blog)))
       ([TagCompletion] @ snd (processTags w 0 (generateTags (tagCompletion w) blog))
        @ snd (uploadFeaturedImage w (js_match imagePattern (content blog)))
        @ [FetchCategories]
        @ snd (validateTags w (fst (processTags w 0 (generateTags (tagCompletion w) blog)))))
       (createPostLoop (createPost w) creds (sentPost w blog req) 1 None)"
  by (simp add: publishAuthenticated_def sentPost_def Let_def case_prod_unfold del: One_nat_def)

lemma publish_reached:
  assumes "getBlog st ident = Some blog"
    and "completeCredentials
           (resolveCredentials (fallbackCredentials w) req (wordpressCredentials st)) = Some creds"
    and "fst (authLoop (authProbe w) creds 1)"
  shows "fst (publish w st ident req) = fst (publishAuthenticated w st blog req creds)"
    and "fst (snd (publish w st ident req)) = fst (snd (publishAuthenticated w st blog req creds))"
    and "snd (snd (publish w st ident req)) =
           snd (authLoop (authProbe w) creds 1) @ snd (snd (publishAuthenticated w st blog req creds))"
  using assms by (simp_all add: publish_def case_prod_unfold del: One_nat_def)

lemma publish_trace:
  assumes "getBlog st ident = Some blog"
    and "completeCredentials
           (resolveCredentials (fallbackCredentials w) req (wordpressCredentials st)) = Some creds"
    and "fst (authLoop (authProbe w) creds 1)"
  shows "\<exists>before. filter isCreatePost before = []
           \<and> snd (snd (publish w st ident req)) =
               before @ postEvents (createPost w) creds (sentPost w blog req) 1
               @ (if http_status (fst (publish w st ident req)) = 200
                  then [ScheduleSourceBackup] else [])"
proof -
  define ids where "ids = fst (processTags w 0 (generateTags (tagCompletion w) blog))"
  define prep where "prep = [TagCompletion] @ snd (processTags w 0 (generateTags (tagCompletion w) blog))
        @ snd (uploadFeaturedImage w (js_match imagePattern (content blog)))
        @ [FetchCategories] @ snd (validateTags w ids)"
  define out where "out = createPostLoop (createPost w) creds (sentPost w blog req) 1 None"
  have pa: "publishAuthenticated w st blog req creds = finishPublish w st blog req ids prep out"
    unfolding ids_def prep_def out_def by (rule publishAuthenticated_unfold)
  note pr = publish_reached [OF assms, unfolded pa]
  have f: "filter isCreatePost (snd (authLoop (authProbe w) creds 1) @ prep) = []"
    by (simp add: prep_def authLoop_no_post processTags_no_post uploadFeaturedImage_no_post
          validateTags_no_post del: One_nat_def)
  have "snd (snd (publish w st ident req)) =
      (snd (authLoop (authProbe w) creds 1) @ prep) @ snd (snd out)
      @ (if http_status (fst (publish w st ident req)) = 200 then [ScheduleSourceBackup] else [])"
    unfolding pr(3) pr(1) finishPublish_events [of w st blog req ids prep out] by simp
  then have "filter isCreatePost (snd (authLoop (authProbe w) creds 1) @ prep) = []
           \<and> snd (snd (publish w st ident req)) =
               (snd (authLoop (authProbe w) creds 1) @ prep)
               @ postEvents (createPost w) creds (sentPost w blog req) 1
               @ (if http_status (fst (publish w st ident req)) = 200
                  then [ScheduleSourceBackup] else [])"
    using f by (simp add: postEvents_def out_def)
  then show ?thesis by (rule exI)
qed

lemma publish_not_reached:
  assumes "\<forall>blog c. getBlog st ident = Some blog \<longrightarrow>
             completeCredentials
               (resolveCredentials (fallbackCredentials w) req (wordpressCredentials st)) = Some c
             \<longrightarrow> \<not> fst (authLoop (authProbe w) c 1)"
  shows "filter isCreatePost (snd (snd (publish w st ident req))) = []"
proof (cases "getBlog st ident")
  case None
  then show ?thesis by (simp add: publish_def)
next
  case (Some blog)
  show ?thesis
  proof (cases "completeCredentials
                  (resolveCredentials (fallbackCredentials w) req (wordpressCredentials st))")
    case None
    with Some show ?thesis by (simp add: publish_def)
  next
    case creds: (Some creds)
    with Some assms have "\<not> fst (authLoop (authProbe w) creds 1)" by blast
    with Some creds show ?thesis
      by (simp add: publish_def case_prod_unfold authLoop_no_post del: One_nat_def)
  qed
qed

lemma postEvents_schedule:
  "postEvents post creds wpData 1 =
     concat (map (\<lambda>k. [CreatePost k (min (30000 + (k - 1) * 15000) 135000) creds wpData,
                        Sleep (min (3000 * (3 / 2) ^ (k - 1)) 60000)])
               [1..<attemptsMade post])
     @ [CreatePost (attemptsMade post) (min (30000 + (attemptsMade post - 1) * 15000) 135000)
          creds wpData]"
  using postEvents_from [of 1 post creds wpData]
  by (simp add: attemptsMade_firstStop attemptTimeout_def retryDelay_def)

lemma postEvents_three:
  assumes "\<not> stops (post 1)" and "\<not> stops (post 2)" and "stops (post 3)"
  shows "postEvents post creds wpData 1 =
          [CreatePost 1 30000 creds wpData, Sleep 3000, CreatePost 2 45000 creds wpData,
           Sleep 4500, CreatePost 3 60000 creds wpData]"
  using assms
  by (simp add: postEvents_unfold [of post creds wpData 1]
        postEvents_unfold [of post creds wpData 2]
        postEvents_unfold [of post creds wpData 3] MAX_ATTEMPTS_def attemptTimeout_def
        retryDelay_def del: One_nat_def)

lemma createPostLoop_three:
  assumes "\<not> stops (post 1)" and "\<not> stops (post 2)" and "post 3 = Resolve r" and "ok r"
  shows "fst (createPostLoop post creds wpData 1 None)"
    and "fst (snd (createPostLoop post creds wpData 1 None)) = Some (r, False)"
proof -
  from assms(3,4) have s3: "stops (post 3)" by (simp add: stops_def)
  show "fst (createPostLoop post creds wpData 1 None)"
    using assms s3
    by (simp add: createPostLoop_success_unfold [of post creds wpData 1]
          createPostLoop_success_unfold [of post creds wpData 2]
          createPostLoop_success_unfold [of post creds wpData 3] MAX_ATTEMPTS_def
          del: One_nat_def)
  show "fst (snd (createPostLoop post creds wpData 1 None)) = Some (r, False)"
    using assms s3
    by (simp add: createPostLoop_held_unfold [of post creds wpData 1]
          createPostLoop_held_unfold [of post creds wpData 2]
          createPostLoop_held_unfold [of post creds wpData 3] MAX_ATTEMPTS_def
          del: One_nat_def)
qed

lemma finishPublish_success:
  assumes "fst outcome" and "fst (snd outcome) = Some (r, False)" and "ok r"
    and "resp_json r = Inr publishedPost"
  shows "http_status (fst (finishPublish w st blog req ids before outcome)) = 200"
proof -
  obtain publishSuccess held evs where o: "outcome = (publishSuccess, held, evs)"
    by (cases outcome) auto
  from assms show ?thesis
    unfolding o finishPublish_def Let_def
    by (simp add: readJson_def case_prod_unfold)
qed

lemma createPostLoop_result:
  "attempt \<le> MAX_ATTEMPTS \<Longrightarrow> fst (createPostLoop post creds wpData attempt held) \<Longrightarrow>
   \<exists>r. post (firstStop post attempt) = Resolve r \<and> ok r
       \<and> fst (snd (createPostLoop post creds wpData attempt held)) = Some (r, False)"
proof (induction "Suc MAX_ATTEMPTS - attempt" arbitrary: attempt held)
  case 0
  then show ?case by simp
next
  case (Suc n)
  then have n: "n = Suc MAX_ATTEMPTS - (attempt + 1)" and le: "attempt \<le> MAX_ATTEMPTS"
    by simp_all
  from le have a8: "attempt \<le> 8" by (simp add: MAX_ATTEMPTS_def)
  note fs = firstStop_step [OF a8, of post]
  show ?case
  proof (cases "stops (post attempt)")
    case True
    with le Suc.prems obtain r where r: "post attempt = Resolve r" "ok r"
      by (cases "post attempt")
         (simp_all add: createPostLoop_success_unfold [of post creds wpData attempt held])
    with True le have "fst (snd (createPostLoop post creds wpData attempt held)) = Some (r, False)"
      by (simp add: createPostLoop_held_unfold [of post creds wpData attempt held])
    with r True fs show ?thesis by simp
  next
    case False
    with le Suc.prems have s: "fst (createPostLoop post creds wpData (attempt + 1)
        (case post attempt of Reject errorMsg \<Rightarrow> held | Resolve r \<Rightarrow> Some (r, True)))"
      by (simp add: createPostLoop_success_unfold [of post creds wpData attempt held])
    have le': "attempt + 1 \<le> MAX_ATTEMPTS"
    proof (rule ccontr)
      assume "\<not> attempt + 1 \<le> MAX_ATTEMPTS"
      then have "\<not> fst (createPostLoop post creds wpData (attempt + 1)
          (case post attempt of Reject errorMsg \<Rightarrow> held | Resolve r \<Rightarrow> Some (r, True)))"
        by (subst createPostLoop_success_unfold) simp
      with s show False by contradiction
    qed
    from Suc.hyps(1) [OF n le' s] obtain r where kr: "post (firstStop post (attempt + 1)) = Resolve r"
      "ok r"
      "fst (snd (createPostLoop post creds wpData (attempt + 1)
        (case post attempt of Reject errorMsg \<Rightarrow> held | Resolve r \<Rightarrow> Some (r, True))))
       = Some (r, False)"
      by blast
    from False le kr(3)
    have "fst (snd (createPostLoop post creds wpData attempt held)) = Some (r, False)"
      by (simp add: createPostLoop_held_unfold [of post creds wpData attempt held])
    with kr(1,2) False fs show ?thesis by simp
  qed
qed

lemma tea_sentPost: "sentPost (teaWorld\<lparr>createPost := post\<rparr>) teaBlog teaRequest = teaSent"
  unfolding sentPost_def Let_def
  by (simp add: tea_tags tea_match tea_fetch tea_categories tea_ids tea_valid_tags tea_sent
        del: processTags.simps)

text \<open>
  C1. The create-post loop attempts the request at most 8 times; attempt k runs under the
  timeout min(30000 + (k - 1) * 15000, 135000) ms; every attempt before the last one made is
  a failure other than a readable 401 or 403 and is followed by a wait of
  min(3000 * 1.5^(k - 1), 60000) ms; the loop ends at the first attempt that gives a 2xx (or
  a readable 401 or 403) response; after two failures and a 2xx response there are exactly
  three attempts, with waits of 3000 ms and 4500 ms. This holds of the loop for every
  behaviour of WordPress, and of every publish: a publish that does not pass the
  authentication probe (or has no blog or no complete credentials) sends no create-post
  request; one that passes it sends the requests of this schedule, with the credentials it
  resolved and the post data it built, after everything else it does and before the
  scheduling of the backup that follows a success; in the case of two failures and a 2xx
  response whose body is a post, it answers 200.
\<close>

theorem create_post_retry_schedule:
  "(1 \<le> attemptsMade post)
   \<and> (attemptsMade post \<le> 8)
   \<and> (\<forall>k. 1 \<le> k \<and> k < attemptsMade post \<longrightarrow> \<not> stops (post k))
   \<and> (attemptsMade post < 8 \<longrightarrow> stops (post (attemptsMade post)))
   \<and> (snd (snd (createPostLoop post creds wpData 1 None)) =
       concat (map (\<lambda>k. [CreatePost k (min (30000 + (k - 1) * 15000) 135000) creds
                            wpData,
                          Sleep (min (3000 * (3 / 2) ^ (k - 1)) 60000)])
                 [1..<attemptsMade post])
       @ [CreatePost (attemptsMade post) (min (30000 + (attemptsMade post - 1) * 15000) 135000)
            creds wpData])
   \<and> (\<not> stops (post 1) \<and> \<not> stops (post 2) \<and> post 3 = Resolve r \<and> ok r \<longrightarrow>
     fst (createPostLoop post creds wpData 1 None)
   \<and> snd (snd (createPostLoop post creds wpData 1 None)) =
       [CreatePost 1 30000 creds wpData, Sleep 3000,
        CreatePost 2 45000 creds wpData, Sleep 4500,
        CreatePost 3 60000 creds wpData])
   \<and> (length (filter isCreatePost (snd (snd (publish w st ident req)))) \<le> 8)
   \<and> ((\<forall>blog c. getBlog st ident = Some blog \<longrightarrow>
        completeCredentials
             (resolveCredentials (fallbackCredentials w) req (wordpressCredentials st)) = Some c
        \<longrightarrow> \<not> fst (authLoop (authProbe w) c 1))
   \<longrightarrow> filter isCreatePost (snd (snd (publish w st ident req))) = [])
   \<and> (getBlog st ident = Some blog
   \<and> completeCredentials
             (resolveCredentials (fallbackCredentials w) req (wordpressCredentials st)) = Some c
   \<and> fst (authLoop (authProbe w) c 1) \<longrightarrow>
     (\<exists>before. filter isCreatePost before = []
        \<and> snd (snd (publish w st ident req)) =
            before @
            concat (map (\<lambda>k. [CreatePost k (min (30000 + (k - 1) * 15000) 135000) c
                                 (sentPost w blog req),
                               Sleep (min (3000 * (3 / 2) ^ (k - 1)) 60000)])
                      [1..<attemptsMade (createPost w)])
            @ [CreatePost (attemptsMade (createPost w)) (min (30000 + (attemptsMade (createPost w) - 1) * 15000) 135000)
                 c (sentPost w blog req)]
            @ (if http_status (fst (publish w st ident req)) = 200 then [ScheduleSourceBackup] else []))
   \<and> (\<not> stops (createPost w 1) \<and> \<not> stops (createPost w 2)
        \<and> createPost w 3 = Resolve r' \<and> ok r' \<longrightarrow>
          (\<exists>before. filter isCreatePost before = []
             \<and> snd (snd (publish w st ident req)) =
                 before @
                 [CreatePost 1 30000 c (sentPost w blog req), Sleep 3000,
                  CreatePost 2 45000 c (sentPost w blog req), Sleep 4500,
                  CreatePost 3 60000 c (sentPost w blog req)]
                 @ (if http_status (fst (publish w st ident req)) = 200 then [ScheduleSourceBackup] else []))
        \<and> (\<forall>publishedPost. resp_json r' = Inr publishedPost
               \<longrightarrow> http_status (fst (publish w st ident req)) = 200)))"
proof -
  from postEvents_from [of 1 post creds wpData]
  have c1: "1 \<le> attemptsMade post" and c2: "attemptsMade post \<le> 8"
    by (simp_all add: attemptsMade_firstStop)
  have c3: "\<forall>k. 1 \<le> k \<and> k < attemptsMade post \<longrightarrow> \<not> stops (post k)"
    using attemptsMade_earlier [of _ post] by blast
  have c4: "attemptsMade post < 8 \<longrightarrow> stops (post (attemptsMade post))"
    using attemptsMade_stops [of post] by blast
  have c5: "snd (snd (createPostLoop post creds wpData 1 None)) =
       concat (map (\<lambda>k. [CreatePost k (min (30000 + (k - 1) * 15000) 135000) creds
                            wpData,
                          Sleep (min (3000 * (3 / 2) ^ (k - 1)) 60000)])
                 [1..<attemptsMade post])
       @ [CreatePost (attemptsMade post) (min (30000 + (attemptsMade post - 1) * 15000) 135000)
            creds wpData]"
    using postEvents_schedule [of post creds wpData] by (simp add: postEvents_def)
  have c6: "\<not> stops (post 1) \<and> \<not> stops (post 2) \<and> post 3 = Resolve r \<and> ok r \<longrightarrow>
     fst (createPostLoop post creds wpData 1 None)
   \<and> snd (snd (createPostLoop post creds wpData 1 None)) =
       [CreatePost 1 30000 creds wpData, Sleep 3000,
        CreatePost 2 45000 creds wpData, Sleep 4500,
        CreatePost 3 60000 creds wpData]"
  proof
    assume h: "\<not> stops (post 1) \<and> \<not> stops (post 2) \<and> post 3 = Resolve r \<and> ok r"
    then have s3: "stops (post 3)" by (simp add: stops_def)
    from h have "fst (createPostLoop post creds wpData 1 None)"
      by (intro createPostLoop_three(1) [of post r]) simp_all
    moreover from h s3 have "snd (snd (createPostLoop post creds wpData 1 None)) =
       [CreatePost 1 30000 creds wpData, Sleep 3000,
        CreatePost 2 45000 creds wpData, Sleep 4500,
        CreatePost 3 60000 creds wpData]"
      using postEvents_three [of post creds wpData] by (simp add: postEvents_def)
    ultimately show "fst (createPostLoop post creds wpData 1 None)
   \<and> snd (snd (createPostLoop post creds wpData 1 None)) =
       [CreatePost 1 30000 creds wpData, Sleep 3000,
        CreatePost 2 45000 creds wpData, Sleep 4500,
        CreatePost 3 60000 creds wpData]"
      by (rule conjI)
  qed
  have c7: "length (filter isCreatePost (snd (snd (publish w st ident req)))) \<le> 8"
    using publish_posts [of w st ident req] postEvents_count by auto
  have c8: "(\<forall>blog c. getBlog st ident = Some blog \<longrightarrow>
        completeCredentials
             (resolveCredentials (fallbackCredentials w) req (wordpressCredentials st)) = Some c
        \<longrightarrow> \<not> fst (authLoop (authProbe w) c 1))
   \<longrightarrow> filter isCreatePost (snd (snd (publish w st ident req))) = []"
    by (rule impI) (rule publish_not_reached)
  have c9: "getBlog st ident = Some blog
   \<and> completeCredentials
             (resolveCredentials (fallbackCredentials w) req (wordpressCredentials st)) = Some c
   \<and> fst (authLoop (authProbe w) c 1) \<longrightarrow>
     (\<exists>before. filter isCreatePost before = []
        \<and> snd (snd (publish w st ident req)) =
            before @
            concat (map (\<lambda>k. [CreatePost k (min (30000 + (k - 1) * 15000) 135000) c
                                 (sentPost w blog req),
                               Sleep (min (3000 * (3 / 2) ^ (k - 1)) 60000)])
                      [1..<attemptsMade (createPost w)])
            @ [CreatePost (attemptsMade (createPost w)) (min (30000 + (attemptsMade (createPost w) - 1) * 15000) 135000)
                 c (sentPost w blog req)]
            @ (if http_status (fst (publish w st ident req)) = 200 then [ScheduleSourceBackup] else []))
   \<and> (\<not> stops (createPost w 1) \<and> \<not> stops (createPost w 2)
        \<and> createPost w 3 = Resolve r' \<and> ok r' \<longrightarrow>
          (\<exists>before. filter isCreatePost before = []
             \<and> snd (snd (publish w st ident req)) =
                 before @
                 [CreatePost 1 30000 c (sentPost w blog req), Sleep 3000,
                  CreatePost 2 45000 c (sentPost w blog req), Sleep 4500,
                  CreatePost 3 60000 c (sentPost w blog req)]
                 @ (if http_status (fst (publish w st ident req)) = 200 then [ScheduleSourceBackup] else []))
        \<and> (\<forall>publishedPost. resp_json r' = Inr publishedPost
               \<longrightarrow> http_status (fst (publish w st ident req)) = 200))"
  proof (intro impI conjI; (elim conjE)?)
    assume h: "getBlog st ident = Some blog"
      "completeCredentials
             (resolveCredentials (fallbackCredentials w) req (wordpressCredentials st)) = Some c"
      "fst (authLoop (authProbe w) c 1)"
    from publish_trace [OF h]
    show "\<exists>before. filter isCreatePost before = []
        \<and> snd (snd (publish w st ident req)) =
            before @
            concat (map (\<lambda>k. [CreatePost k (min (30000 + (k - 1) * 15000) 135000) c
                                 (sentPost w blog req),
                               Sleep (min (3000 * (3 / 2) ^ (k - 1)) 60000)])
                      [1..<attemptsMade (createPost w)])
            @ [CreatePost (attemptsMade (createPost w)) (min (30000 + (attemptsMade (createPost w) - 1) * 15000) 135000)
                 c (sentPost w blog req)]
            @ (if http_status (fst (publish w st ident req)) = 200 then [ScheduleSourceBackup] else [])"
      unfolding postEvents_schedule by simp
  next
    assume h: "getBlog st ident = Some blog"
      "completeCredentials
             (resolveCredentials (fallbackCredentials w) req (wordpressCredentials st)) = Some c"
      "fst (authLoop (authProbe w) c 1)"
    assume s: "\<not> stops (createPost w 1)" "\<not> stops (createPost w 2)"
      "createPost w 3 = Resolve r'" "ok r'"
    from s(3,4) have s3: "stops (createPost w 3)" by (simp add: stops_def)
    from publish_trace [OF h]
    show "\<exists>before. filter isCreatePost before = []
             \<and> snd (snd (publish w st ident req)) =
                 before @
                 [CreatePost 1 30000 c (sentPost w blog req), Sleep 3000,
                  CreatePost 2 45000 c (sentPost w blog req), Sleep 4500,
                  CreatePost 3 60000 c (sentPost w blog req)]
                 @ (if http_status (fst (publish w st ident req)) = 200 then [ScheduleSourceBackup] else [])"
      unfolding postEvents_three [OF s(1,2) s3] by simp
  next
    assume h: "getBlog st ident = Some blog"
      "completeCredentials
             (resolveCredentials (fallbackCredentials w) req (wordpressCredentials st)) = Some c"
      "fst (authLoop (authProbe w) c 1)"
    assume s: "\<not> stops (createPost w 1)" "\<not> stops (createPost w 2)"
      "createPost w 3 = Resolve r'" "ok r'"
    show "\<forall>publishedPost. resp_json r' = Inr publishedPost
               \<longrightarrow> http_status (fst (publish w st ident req)) = 200"
    proof (intro allI impI)
      fix publishedPost
      assume j: "resp_json r' = Inr publishedPost"
      note l = createPostLoop_three [OF s, of c "sentPost w blog req"]
      show "http_status (fst (publish w st ident req)) = 200"
        unfolding publish_reached(1) [OF h] publishAuthenticated_unfold
        by (rule finishPublish_success [OF l s(4) j])
    qed
  qed
  show ?thesis
    by (intro conjI c1 c2 c3 c4 c5 c6 c7 c8 c9)
qed

theorem create_post_retry_schedule_witness:
  "(\<exists>before. filter isCreatePost before = []
      \<and> snd (snd (publish flakyWorld teaStorage ''b1'' teaRequest)) =
          before @
          [CreatePost 1 30000 storedCreds teaSent, Sleep 3000,
           CreatePost 2 45000 storedCreds teaSent, Sleep 4500,
           CreatePost 3 60000 storedCreds teaSent]
          @ [ScheduleSourceBackup])
   \<and> http_status (fst (publish flakyWorld teaStorage ''b1'' teaRequest)) = 200"
proof -
  have b: "getBlog teaStorage ''b1'' = Some teaBlog"
    by (simp add: getBlog_def teaStorage_def)
  have c: "completeCredentials (resolveCredentials (fallbackCredentials flakyWorld) teaRequest
             (wordpressCredentials teaStorage)) = Some storedCreds"
    by (simp add: completeCredentials_def resolveCredentials_def teaRequest_def teaStorage_def
          storedCreds_def truthy_def js_or_def)
  have a: "fst (authLoop (authProbe flakyWorld) storedCreds 1)"
    by (simp add: authLoop_closed probeOk_def flakyWorld_def teaWorld_def del: One_nat_def)
  have s: "\<not> stops (createPost flakyWorld 1)" "\<not> stops (createPost flakyWorld 2)"
    "createPost flakyWorld 3 = Resolve createdPost" "ok createdPost"
    "resp_json createdPost = Inr \<lparr>post_link = ''https://wp.example/tea'', post_id = 77\<rparr>"
    by (simp_all add: flakyWorld_def flakyPost_def stops_def ok_def createdPost_def)
  have d: "sentPost flakyWorld teaBlog teaRequest = teaSent"
    unfolding flakyWorld_def by (rule tea_sentPost)
  from create_post_retry_schedule [where w = flakyWorld and st = teaStorage and ident = "''b1''"
      and req = teaRequest and blog = teaBlog and c = storedCreds and r' = createdPost]
  have "getBlog teaStorage ''b1'' = Some teaBlog
   \<and> completeCredentials
             (resolveCredentials (fallbackCredentials flakyWorld) teaRequest (wordpressCredentials teaStorage)) = Some storedCreds
   \<and> fst (authLoop (authProbe flakyWorld) storedCreds 1) \<longrightarrow>
        (\<not> stops (createPost flakyWorld 1) \<and> \<not> stops (createPost flakyWorld 2)
        \<and> createPost flakyWorld 3 = Resolve createdPost \<and> ok createdPost \<longrightarrow>
          (\<exists>before. filter isCreatePost before = []
             \<and> snd (snd (publish flakyWorld teaStorage ''b1'' teaRequest)) =
                 before @
                 [CreatePost 1 30000 storedCreds (sentPost flakyWorld teaBlog teaRequest), Sleep 3000,
                  CreatePost 2 45000 storedCreds (sentPost flakyWorld teaBlog teaRequest), Sleep 4500,
                  CreatePost 3 60000 storedCreds (sentPost flakyWorld teaBlog teaRequest)]
                 @ (if http_status (fst (publish flakyWorld teaStorage ''b1'' teaRequest)) = 200 then [ScheduleSourceBackup] else []))
        \<and> (\<forall>publishedPost. resp_json createdPost = Inr publishedPost
               \<longrightarrow> http_status (fst (publish flakyWorld teaStorage ''b1'' teaRequest)) = 200))"
    by blast
  with b c a s have t: "\<exists>before. filter isCreatePost before = []
             \<and> snd (snd (publish flakyWorld teaStorage ''b1'' teaRequest)) =
                 before @
                 [CreatePost 1 30000 storedCreds (sentPost flakyWorld teaBlog teaRequest), Sleep 3000,
                  CreatePost 2 45000 storedCreds (sentPost flakyWorld teaBlog teaRequest), Sleep 4500,
                  CreatePost 3 60000 storedCreds (sentPost flakyWorld teaBlog teaRequest)]
                 @ (if http_status (fst (publish flakyWorld teaStorage ''b1'' teaRequest)) = 200 then [ScheduleSourceBackup] else [])"
    and u: "http_status (fst (publish flakyWorld teaStorage ''b1'' teaRequest)) = 200"
    by blast+
  from t show ?thesis
    unfolding d by (simp add: u)
qed

subsection \<open>What a publish stores and sends\<close>

lemma publish_200:
  assumes "http_status (fst (publish w st ident req)) = 200"
    and "getBlog st ident = Some blog"
  shows "\<exists>creds. completeCredentials
           (resolveCredentials (fallbackCredentials w) req (wordpressCredentials st)) = Some creds
         \<and> fst (authLoop (authProbe w) creds 1)"
proof (cases "completeCredentials
                (resolveCredentials (fallbackCredentials w) req (wordpressCredentials st))")
  case None
  with assms show ?thesis by (simp add: publish_def)
next
  case (Some creds)
  with assms show ?thesis
    by (cases "fst (authLoop (authProbe w) creds 1)") (simp_all add: publish_def case_prod_unfold)
qed

text \<open>
  C3 (as amended). When a publish answers 200, the blog is stored with status "published",
  the link and the id (as a string) of the post in the response to the last create-post
  attempt made, which is a 2xx response, the time of the write, the categoryId of the request
  body (as a string, absent when the request has none), the tag ids collected by the
  search-or-create loop before they are validated against the live tag list, and the
  metaDescription of the request body. Every create-post request of that publish, and there
  is one, carries the category ids resolved against the live category list and, as tags,
  the collected tag ids that occur in the live tag list: none when the request for the
  tag list is answered with another status than 2xx, and all of them when that request
  throws.
\<close>

theorem persisted_publication_fields:
  assumes "getBlog st ident = Some blog" and "blogId blog = ident"
    and "http_status (fst (publish w st ident req)) = 200"
  shows "\<exists>r publishedPost creds.
     completeCredentials
       (resolveCredentials (fallbackCredentials w) req (wordpressCredentials st)) = Some creds
   \<and> createPost w (attemptsMade (createPost w)) = Resolve r \<and> ok r
   \<and> resp_json r = Inr publishedPost
   \<and> fst (snd (publish w st ident req)) =
       st\<lparr>blogs := (blogs st)(ident \<mapsto>
          blog\<lparr>status := ''published'',
               wordpressUrl := Some (post_link publishedPost),
               wordpressPostId := Some (numberToString (unsafeDigits w) (post_id publishedPost)),
               publishedAt := Some (clock w 0),
               categoryId := map_option (numberToString (unsafeDigits w)) (req_categoryId req),
               tagIds := Some (fst (processTags w 0 (generateTags (tagCompletion w) blog))),
               metaDescription := req_metaDescription req\<rparr>)\<rparr>
   \<and> CreatePost (attemptsMade (createPost w)) (attemptTimeout (attemptsMade (createPost w))) creds
         (sentPost w blog req) \<in> set (snd (snd (publish w st ident req)))
   \<and> (\<forall>e \<in> set (snd (snd (publish w st ident req))).
         \<forall>attempt timeout c wpData.
           e = CreatePost attempt timeout c wpData \<longrightarrow> wpData = sentPost w blog req)
   \<and> wp_categories (sentPost w blog req) =
       resolveCategories (title blog) (content blog)
         (requestedCategoryIds (req_seoCategoryIds req) (req_categoryId req))
         (fetchCategories w)
   \<and> wp_tags (sentPost w blog req) =
       (if fst (processTags w 0 (generateTags (tagCompletion w) blog)) = [] then []
        else (case tagsFetch w of
                Fetched availableTagIds \<Rightarrow>
                  filter (\<lambda>tagId. tagId \<in> set availableTagIds)
                    (fst (processTags w 0 (generateTags (tagCompletion w) blog)))
              | Failed httpStatus \<Rightarrow> []
              | Rejected \<Rightarrow> fst (processTags w 0 (generateTags (tagCompletion w) blog))))"
proof -
  from publish_200 [OF assms(3,1)] obtain creds where
    c: "completeCredentials
          (resolveCredentials (fallbackCredentials w) req (wordpressCredentials st)) = Some creds"
    and a: "fst (authLoop (authProbe w) creds 1)"
    by blast
  note pr = publish_reached [OF assms(1) c a]
  define ids where "ids = fst (processTags w 0 (generateTags (tagCompletion w) blog))"
  define prep where "prep = [TagCompletion] @ snd (processTags w 0 (generateTags (tagCompletion w) blog))
        @ snd (uploadFeaturedImage w (js_match imagePattern (content blog)))
        @ [FetchCategories] @ snd (validateTags w ids)"
  define out where "out = createPostLoop (createPost w) creds (sentPost w blog req) 1 None"
  have pa: "publishAuthenticated w st blog req creds = finishPublish w st blog req ids prep out"
    unfolding ids_def prep_def out_def by (rule publishAuthenticated_unfold)
  from assms(1,2) have b: "blogs st (blogId blog) = Some blog"
    by (simp add: getBlog_def)
  from assms(3) have "http_status (fst (finishPublish w st blog req ids prep out)) = 200"
    by (simp add: pr(1) pa)
  from finishPublish_200 [OF this b] obtain r publishedPost where
    s: "fst out" and h: "fst (snd out) = Some (r, False)"
    and j: "resp_json r = Inr publishedPost"
    and u: "fst (snd (finishPublish w st blog req ids prep out)) =
            st\<lparr>blogs := (blogs st)(blogId blog \<mapsto>
               blog\<lparr>status := ''published'',
                    wordpressUrl := Some (post_link publishedPost),
                    wordpressPostId := Some (numberToString (unsafeDigits w) (post_id publishedPost)),
                    publishedAt := Some (clock w 0),
                    categoryId := map_option (numberToString (unsafeDigits w)) (req_categoryId req),
                    tagIds := Some (fst (processTags w 0 (generateTags (tagCompletion w) blog))),
                    metaDescription := req_metaDescription req\<rparr>)\<rparr>"
    by (auto simp: ids_def)
  have "1 \<le> MAX_ATTEMPTS" by (simp add: MAX_ATTEMPTS_def)
  from createPostLoop_result [OF this s [unfolded out_def]] h
  have k: "createPost w (attemptsMade (createPost w)) = Resolve r" "ok r"
    by (auto simp: out_def attemptsMade_firstStop)
  have st: "fst (snd (publish w st ident req)) =
            st\<lparr>blogs := (blogs st)(ident \<mapsto>
               blog\<lparr>status := ''published'',
                    wordpressUrl := Some (post_link publishedPost),
                    wordpressPostId := Some (numberToString (unsafeDigits w) (post_id publishedPost)),
                    publishedAt := Some (clock w 0),
                    categoryId := map_option (numberToString (unsafeDigits w)) (req_categoryId req),
                    tagIds := Some (fst (processTags w 0 (generateTags (tagCompletion w) blog))),
                    metaDescription := req_metaDescription req\<rparr>)\<rparr>"
    using u by (simp add: pr(2) pa assms(2))
  from publish_trace [OF assms(1) c a] obtain before where
    f: "filter isCreatePost before = []"
    and t: "snd (snd (publish w st ident req)) =
               before @ postEvents (createPost w) creds (sentPost w blog req) 1
               @ (if http_status (fst (publish w st ident req)) = 200
                  then [ScheduleSourceBackup] else [])"
    by blast
  have m: "CreatePost (attemptsMade (createPost w)) (attemptTimeout (attemptsMade (createPost w)))
             creds (sentPost w blog req) \<in> set (snd (snd (publish w st ident req)))"
    unfolding t postEvents_schedule by (simp add: attemptTimeout_def)
  have d: "\<forall>e \<in> set (snd (snd (publish w st ident req))).
         \<forall>attempt timeout c wpData.
           e = CreatePost attempt timeout c wpData \<longrightarrow> wpData = sentPost w blog req"
  proof (intro ballI allI impI)
    fix e attempt timeout c wpData
    assume e: "e \<in> set (snd (snd (publish w st ident req)))"
      and p: "e = CreatePost attempt timeout c wpData"
    from f have nb: "e \<notin> set before"
      unfolding filter_empty_conv p by auto
    from e [unfolded t] nb p have "e \<in> set (postEvents (createPost w) creds (sentPost w blog req) 1)"
      by (auto split: if_splits)
    from postEvents_kinds [OF this] show "wpData = sentPost w blog req"
      unfolding p by auto
  qed
  have cs: "wp_categories (sentPost w blog req) =
       resolveCategories (title blog) (content blog)
         (requestedCategoryIds (req_seoCategoryIds req) (req_categoryId req))
         (fetchCategories w)"
    by (simp add: sentPost_def buildWordpressData_def Let_def)
  have ts: "wp_tags (sentPost w blog req) =
       (if ids = [] then []
        else (case tagsFetch w of
                Fetched availableTagIds \<Rightarrow>
                  filter (\<lambda>tagId. tagId \<in> set availableTagIds) ids
              | Failed httpStatus \<Rightarrow> []
              | Rejected \<Rightarrow> ids))"
    by (simp add: sentPost_def buildWordpressData_def validateTags_def Let_def ids_def
          split: fetched.splits)
  from c k j st m d cs ts [unfolded ids_def] show ?thesis by blast
qed

lemma tea_200: "http_status (fst (publish teaWorld teaStorage ''b1'' teaRequest)) = 200"
  by (simp add: tea_publish)

theorem persisted_publication_fields_witness:
  "\<exists>r publishedPost creds.
     completeCredentials
       (resolveCredentials (fallbackCredentials teaWorld) teaRequest (wordpressCredentials teaStorage)) = Some creds
   \<and> createPost teaWorld (attemptsMade (createPost teaWorld)) = Resolve r \<and> ok r
   \<and> resp_json r = Inr publishedPost
   \<and> fst (snd (publish teaWorld teaStorage ''b1'' teaRequest)) =
       teaStorage\<lparr>blogs := (blogs teaStorage)(''b1'' \<mapsto>
          teaBlog\<lparr>status := ''published'',
               wordpressUrl := Some (post_link publishedPost),
               wordpressPostId := Some (numberToString (unsafeDigits teaWorld) (post_id publishedPost)),
               publishedAt := Some (clock teaWorld 0),
               categoryId := map_option (numberToString (unsafeDigits teaWorld)) (req_categoryId teaRequest),
               tagIds := Some (fst (processTags teaWorld 0 (generateTags (tagCompletion teaWorld) teaBlog))),
               metaDescription := req_metaDescription teaRequest\<rparr>)\<rparr>
   \<and> CreatePost (attemptsMade (createPost teaWorld)) (attemptTimeout (attemptsMade (createPost teaWorld))) creds
         (sentPost teaWorld teaBlog teaRequest) \<in> set (snd (snd (publish teaWorld teaStorage ''b1'' teaRequest)))
   \<and> (\<forall>e \<in> set (snd (snd (publish teaWorld teaStorage ''b1'' teaRequest))).
         \<forall>attempt timeout c wpData.
           e = CreatePost attempt timeout c wpData \<longrightarrow> wpData = sentPost teaWorld teaBlog teaRequest)
   \<and> wp_categories (sentPost teaWorld teaBlog teaRequest) =
       resolveCategories (title teaBlog) (content teaBlog)
         (requestedCategoryIds (req_seoCategoryIds teaRequest) (req_categoryId teaRequest))
         (fetchCategories teaWorld)
   \<and> wp_tags (sentPost teaWorld teaBlog teaRequest) =
       (if fst (processTags teaWorld 0 (generateTags (tagCompletion teaWorld) teaBlog)) = [] then []
        else (case tagsFetch teaWorld of
                Fetched availableTagIds \<Rightarrow>
                  filter (\<lambda>tagId. tagId \<in> set availableTagIds)
                    (fst (processTags teaWorld 0 (generateTags (tagCompletion teaWorld) teaBlog)))
              | Failed httpStatus \<Rightarrow> []
              | Rejected \<Rightarrow> fst (processTags teaWorld 0 (generateTags (tagCompletion teaWorld) teaBlog))))"
proof (rule persisted_publication_fields)
  show "getBlog teaStorage ''b1'' = Some teaBlog"
    by (simp add: getBlog_def teaStorage_def)
  show "blogId teaBlog = ''b1''"
    by (simp add: teaBlog_def)
  show "http_status (fst (publish teaWorld teaStorage ''b1'' teaRequest)) = 200"
    by (rule tea_200)
qed

theorem stored_taxonomy_counterexample:
  "publish teaWorld teaStorage ''b1'' teaRequest =
     (\<lparr>http_status = 200,
       body = PublishedBody ''https://wp.example/tea'' ''2025-01-01T00:00:00.000Z'' (Some 99)
                [11, 12] None\<rparr>,
      teaStorage\<lparr>blogs := (blogs teaStorage)(''b1'' \<mapsto> teaPublished)\<rparr>,
      AuthProbe 1 storedCreds # teaBefore
        @ [CreatePost 1 30000 storedCreds teaSent, ScheduleSourceBackup])
   \<and> categoryId teaPublished = Some ''99'' \<and> wp_categories teaSent = [3]
   \<and> tagIds teaPublished = Some [11, 12] \<and> wp_tags teaSent = [11]"
  by (simp add: tea_publish teaPublished_def teaSent_def)

lemma posted_featured_media:
  assumes m: "e \<in> set (filter isCreatePost (postEvents (createPost w) creds'
             (buildWordpressData blog req (js_match imagePattern (content blog)) cs ts) 1))"
    and c: "e = CreatePost attempt timeout creds wpData"
  shows "featured_media wpData = None"
proof -
  from m have "e \<in> set (postEvents (createPost w) creds'
             (buildWordpressData blog req (js_match imagePattern (content blog)) cs ts) 1)"
    by (rule subsetD [OF filter_is_subset])
  from postEvents_kinds [OF this]
  have "wpData = buildWordpressData blog req (js_match imagePattern (content blog)) cs ts"
    unfolding c by (elim disjE exE) simp_all
  then show ?thesis
    by (simp add: buildWordpressData_def Let_def)
qed

text \<open>
  C10. Every create-post request of a publish carries featured_media = null, also when the
  featured image was downloaded and uploaded and WordPress returned a media id.
\<close>

theorem featured_media_always_null:
  "\<forall>e \<in> set (snd (snd (publish w st ident req))).
     \<forall>attempt timeout creds wpData.
       e = CreatePost attempt timeout creds wpData \<longrightarrow> featured_media wpData = None"
proof (intro ballI allI impI)
  fix e attempt timeout creds wpData
  assume e: "e \<in> set (snd (snd (publish w st ident req)))"
    and c: "e = CreatePost attempt timeout creds wpData"
  then have m: "e \<in> set (filter isCreatePost (snd (snd (publish w st ident req))))"
    by simp
  show "featured_media wpData = None"
  proof (rule disjE [OF publish_posts [of w st ident req]])
    assume "filter isCreatePost (snd (snd (publish w st ident req))) = []"
    with m show ?thesis by simp
  next
    assume "\<exists>blog creds validCategoryIds validTagIds.
         getBlog st ident = Some blog
       \<and> filter isCreatePost (snd (snd (publish w st ident req)))
         = filter isCreatePost (postEvents (createPost w) creds
             (buildWordpressData blog req (js_match imagePattern (content blog))
                validCategoryIds validTagIds) 1)"
    then obtain blog creds' cs ts where
      eq: "filter isCreatePost (snd (snd (publish w st ident req))) =
         filter isCreatePost (postEvents (createPost w) creds'
             (buildWordpressData blog req (js_match imagePattern (content blog)) cs ts) 1)"
      by (elim exE conjE)
    from m [unfolded eq] c show ?thesis
      by (rule posted_featured_media)
  qed
qed

theorem featured_media_always_null_witness:
  "fst (uploadFeaturedImage teaWorld (js_match imagePattern (content teaBlog))) = Some 42
   \<and> CreatePost 1 30000 storedCreds teaSent
       \<in> set (snd (snd (publish teaWorld teaStorage ''b1'' teaRequest)))
   \<and> featured_media teaSent = None"
proof -
  have u: "fst (uploadFeaturedImage teaWorld (js_match imagePattern (content teaBlog))) = Some 42"
    using tea_upload [of "createPost teaWorld"] by (simp add: tea_match)
  have m: "CreatePost 1 30000 storedCreds teaSent
       \<in> set (snd (snd (publish teaWorld teaStorage ''b1'' teaRequest)))"
    by (simp add: tea_publish)
  from featured_media_always_null [of teaWorld teaStorage "''b1''" teaRequest] m
  have "\<forall>attempt timeout creds wpData.
          CreatePost 1 30000 storedCreds teaSent = CreatePost attempt timeout creds wpData
          \<longrightarrow> featured_media wpData = None"
    by (rule bspec)
  then have "featured_media teaSent = None" by simp
  with u m show ?thesis by (intro conjI)
qed

subsection \<open>A create-post request answered 401\<close>

lemma tea_show_status: "show_nat 401 = ''401''" "show_nat 500 = ''500''"
  by code_simp+

text \<open>
  C2, evaluated where it fails. With stored credentials that pass the probe and a WordPress
  that answers 401 to the first create-post request, one request is made; the reply is
  500 "Failed to publish to WordPress" with the details "WordPress HTTP 401 error" and without
  needsCredentials: status, error and flag are those of a publish whose eight requests were
  answered 500, and not those of a failed authentication probe (401 with needsCredentials).
\<close>

theorem create_post_401_reply:
  "publish revokedWorld teaStorage ''b1'' teaRequest =
     (\<lparr>http_status = 500,
       body = ErrorBody ''Failed to publish to WordPress'' (Some ''WordPress HTTP 401 error'') False\<rparr>,
      teaStorage, AuthProbe 1 storedCreds # teaBefore @ [CreatePost 1 30000 storedCreds teaSent])
   \<and> fst (publish brokenWorld teaStorage ''b1'' teaRequest) =
       \<lparr>http_status = 500,
        body = ErrorBody ''Failed to publish to WordPress'' (Some ''WordPress HTTP 500 error'') False\<rparr>
   \<and> fst (publish lockedOutWorld teaStorage ''b1'' teaRequest) =
       \<lparr>http_status = 401,
        body = ErrorBody ''WordPress authentication failed after multiple attempts''
                 (Some ''Please verify your WordPress URL, username, and application password'')
                 True\<rparr>"
proof -
  have l1: "createPostLoop (\<lambda>attempt. Resolve unauthorized) storedCreds teaSent 1 None =
     (False, Some (unauthorized, True), [CreatePost 1 30000 storedCreds teaSent])"
    by (simp add: createPostLoop.simps [of _ _ _ 1] unauthorized_def ok_def readText_def
          MAX_ATTEMPTS_def attemptTimeout_def del: One_nat_def)
  have f1: "finishPublish revokedWorld teaStorage teaBlog teaRequest [11, 12] teaBefore
      (False, Some (unauthorized, True), [CreatePost 1 30000 storedCreds teaSent]) =
     (\<lparr>http_status = 500,
       body = ErrorBody ''Failed to publish to WordPress'' (Some ''WordPress HTTP 401 error'') False\<rparr>,
      teaStorage, teaBefore @ [CreatePost 1 30000 storedCreds teaSent])"
    by (simp add: finishPublish_def finalErrorMessage_def readText_def failedToPublish_def
          unauthorized_def tea_show_status)
  have p1: "publish revokedWorld teaStorage ''b1'' teaRequest =
     (\<lparr>http_status = 500,
       body = ErrorBody ''Failed to publish to WordPress'' (Some ''WordPress HTTP 401 error'') False\<rparr>,
      teaStorage, AuthProbe 1 storedCreds # teaBefore @ [CreatePost 1 30000 storedCreds teaSent])"
    using tea_publish_with [of "\<lambda>attempt. Resolve unauthorized"]
    unfolding l1 revokedWorld_def [symmetric] f1 by simp
  have s: "\<not> stops (Resolve serverError)"
    by (simp add: stops_def serverError_def ok_def)
  have l2: "fst (createPostLoop (\<lambda>attempt. Resolve serverError) storedCreds teaSent 1 None) = False"
    using s
    by (simp add: createPostLoop_success_unfold [of _ _ _ 1] createPostLoop_success_unfold [of _ _ _ 2]
          createPostLoop_success_unfold [of _ _ _ 3] createPostLoop_success_unfold [of _ _ _ 4]
          createPostLoop_success_unfold [of _ _ _ 5] createPostLoop_success_unfold [of _ _ _ 6]
          createPostLoop_success_unfold [of _ _ _ 7] createPostLoop_success_unfold [of _ _ _ 8]
          createPostLoop_success_unfold [of _ _ _ 9] MAX_ATTEMPTS_def del: One_nat_def)
  have h2: "fst (snd (createPostLoop (\<lambda>attempt. Resolve serverError) storedCreds teaSent 1 None))
            = Some (serverError, True)"
    using s
    by (simp add: createPostLoop_held_unfold [of _ _ _ 1] createPostLoop_held_unfold [of _ _ _ 2]
          createPostLoop_held_unfold [of _ _ _ 3] createPostLoop_held_unfold [of _ _ _ 4]
          createPostLoop_held_unfold [of _ _ _ 5] createPostLoop_held_unfold [of _ _ _ 6]
          createPostLoop_held_unfold [of _ _ _ 7] createPostLoop_held_unfold [of _ _ _ 8]
          createPostLoop_held_unfold [of _ _ _ 9] MAX_ATTEMPTS_def del: One_nat_def)
  have f2: "fst (finishPublish brokenWorld teaStorage teaBlog teaRequest [11, 12] teaBefore
      (createPostLoop (\<lambda>attempt. Resolve serverError) storedCreds teaSent 1 None)) =
     \<lparr>http_status = 500,
      body = ErrorBody ''Failed to publish to WordPress'' (Some ''WordPress HTTP 500 error'') False\<rparr>"
    using l2 h2
    by (cases "createPostLoop (\<lambda>attempt. Resolve serverError) storedCreds teaSent 1 None")
       (simp add: finishPublish_def finalErrorMessage_def readText_def failedToPublish_def
          serverError_def tea_show_status)
  have p2: "fst (publish brokenWorld teaStorage ''b1'' teaRequest) =
       \<lparr>http_status = 500,
        body = ErrorBody ''Failed to publish to WordPress'' (Some ''WordPress HTTP 500 error'') False\<rparr>"
    using tea_publish_with [of "\<lambda>attempt. Resolve serverError"] f2
    unfolding brokenWorld_def [symmetric] by (simp add: case_prod_unfold)
  have b: "getBlog teaStorage ''b1'' = Some teaBlog"
    by (simp add: getBlog_def teaStorage_def)
  have c: "completeCredentials (resolveCredentials (fallbackCredentials teaWorld) teaRequest
             (wordpressCredentials teaStorage)) = Some storedCreds"
    by (simp add: completeCredentials_def resolveCredentials_def teaRequest_def teaStorage_def
          storedCreds_def truthy_def js_or_def)
  have p3: "fst (publish lockedOutWorld teaStorage ''b1'' teaRequest) =
       \<lparr>http_status = 401,
        body = ErrorBody ''WordPress authentication failed after multiple attempts''
                 (Some ''Please verify your WordPress URL, username, and application password'')
                 True\<rparr>"
    by (simp add: publish_def b c authLoop_closed probeOk_def lockedOutWorld_def
          del: One_nat_def)
  from p1 p2 p3 show ?thesis by blast
qed

subsection \<open>Which credentials a publish uses\<close>

text \<open>
  C4, evaluated where it fails. A request body that carries a URL, a user name and a password
  is used as it is, although credentials are stored; the stored ones are read only when one
  of the three is missing from the body.
\<close>

theorem request_credentials_override_stored:
  "completeCredentials
     (resolveCredentials (fallbackCredentials teaWorld) requestWithCredentials (Some storedCreds))
   = Some requestCreds
   \<and> completeCredentials
       (resolveCredentials (fallbackCredentials teaWorld) teaRequest (Some storedCreds))
     = Some storedCreds
   \<and> completeCredentials (resolveCredentials (fallbackCredentials teaWorld) teaRequest None)
     = Some (fallbackCredentials teaWorld)"
  by (simp add: completeCredentials_def resolveCredentials_def requestWithCredentials_def
        requestCreds_def teaRequest_def storedCreds_def truthy_def js_or_def teaWorld_def)

theorem request_credentials_override_stored_witness:
  "completeCredentials
     (resolveCredentials (fallbackCredentials teaWorld) requestWithCredentials (Some storedCreds))
   \<noteq> Some storedCreds"
  using request_credentials_override_stored by (simp add: requestCreds_def storedCreds_def)

subsection \<open>The HTML of a post\<close>

text \<open>
  C7, evaluated where it fails. An exclamation mark before an image reference and a link with an
  empty text after it leave, once the reference is deleted, the text of an image reference
  that nothing removes later; and a line that is "# " alone is not matched by the pattern of
  the title line and stays when its paragraph holds a heading tag.
\<close>

theorem image_syntax_survives:
  "markdownToHtml crowdedImages = ''<p>![](d)</p>''
   \<and> js_match imagePattern ''<p>![](d)</p>'' = Some ['''', ''d'']
   \<and> markdownToHtml ''## x\<newline># '' = ''<h2>x</h2>\<newline># ''"
  unfolding crowdedImages_def by code_simp

theorem image_syntax_survives_witness:
  "js_match imagePattern (markdownToHtml crowdedImages) \<noteq> None"
  using image_syntax_survives by simp

subsection \<open>The excerpt of a post\<close>

lemma firstSentence_find:
  "firstSentence sentences =
     (case find qualifies (map trim sentences) of Some sentence \<Rightarrow> sentence @ ''.'' | None \<Rightarrow> [])"
  by (induction sentences) (simp_all add: Let_def qualifies_def)

lemma firstWords_length: "length (firstWords cleanExcerpt) \<le> 160"
proof (cases "search lastWordPattern None (take 160 cleanExcerpt)")
  case None
  then show ?thesis by (simp add: firstWords_def replaceFirst_def)
next
  case (Some m)
  obtain i n gs where m: "m = (i, n, gs)" by (cases m) auto
  have "length (take i (take 160 cleanExcerpt) @ drop (i + n) (take 160 cleanExcerpt)) \<le> 160"
    by simp
  with Some m show ?thesis by (simp add: firstWords_def replaceFirst_def)
qed

text \<open>
  C6 (as amended). The excerpt of a publish is never empty. It is the first sentence of the
  cleaned text that, trimmed, has more than 20 characters, does not start with http:// or
  https:// and does not contain "unsplash", followed by a period, whatever its length; when no
  sentence qualifies and the cleaned text has more than 20 characters it is the first 160
  characters of the cleaned text without their last white space and what follows it, at most
  160 characters; otherwise it is the fixed generic sentence.
\<close>

theorem excerpt_shape:
  "extractExcerpt markdown \<noteq> []
   \<and> extractExcerpt markdown =
       (case find qualifies (map trim (splitRegex sentenceEndPattern (cleanText markdown))) of
          Some sentence \<Rightarrow> sentence @ ''.''
        | None \<Rightarrow>
            if length (cleanText markdown) > 20 \<and> firstWords (cleanText markdown) \<noteq> []
            then firstWords (cleanText markdown)
            else ''A comprehensive guide on sustainable fashion and ethical living.'')
   \<and> length (firstWords (cleanText markdown)) \<le> 160"
proof -
  have eq: "extractExcerpt markdown =
       (case find qualifies (map trim (splitRegex sentenceEndPattern (cleanText markdown))) of
          Some sentence \<Rightarrow> sentence @ ''.''
        | None \<Rightarrow>
            if length (cleanText markdown) > 20 \<and> firstWords (cleanText markdown) \<noteq> []
            then firstWords (cleanText markdown)
            else ''A comprehensive guide on sustainable fashion and ethical living.'')"
    by (simp add: extractExcerpt_def excerptOf_def Let_def firstSentence_find firstWords_def
          genericExcerpt_def split: option.splits)
  have "extractExcerpt markdown \<noteq> []"
    unfolding eq by (simp split: option.splits)
  with eq firstWords_length show ?thesis by blast
qed

theorem excerpt_shape_witness:
  "extractExcerpt (content teaBlog) = ''Tea is a drink enjoyed by many people.''"
proof -
  have "find qualifies (map trim (splitRegex sentenceEndPattern (cleanText (content teaBlog))))
        = Some ''Tea is a drink enjoyed by many people''"
    by code_simp
  with excerpt_shape [of "content teaBlog"] show ?thesis by simp
qed

theorem excerpt_counterexample:
  "length shortSentence = 20
   \<and> extractExcerpt shortSentence = ''A comprehensive guide on sustainable fashion and ethical living.''
   \<and> length (extractExcerpt longSentence) = 231"
  by code_simp

subsection \<open>Replacing the image at an index\<close>

lemma rx_bounds:
  "rx m ts p s n os gs = Some (n', gs') \<Longrightarrow> n \<le> n' \<and> n' \<le> n + length s"
proof (induction m ts p s n os gs arbitrary: n' gs' rule: rx.induct)
  case (5 m A lo hi ts p c s n os gs)
  show ?case
  proof (cases "c \<in> A \<and> hi \<noteq> Some 0")
    case True
    show ?thesis
    proof (cases "rx m (Rep A (lo - 1) (map_option (\<lambda>h. h - 1) hi) # ts) (Some c) s (Suc n) os gs")
      case None
      with True "5.prems" have lo: "lo = 0" and r: "rx m ts p (c # s) n os gs = Some (n', gs')"
        by (auto split: if_splits)
      from "5.IH"(2) [OF True None lo r] show ?thesis .
    next
      case (Some r)
      with True "5.prems" have "rx m (Rep A (lo - 1) (map_option (\<lambda>h. h - 1) hi) # ts) (Some c) s (Suc n) os gs = Some (n', gs')"
        by simp
      from "5.IH"(1) [OF True this] show ?thesis by simp
    qed
  next
    case False
    with "5.prems" have lo: "lo = 0" and r: "rx m ts p (c # s) n os gs = Some (n', gs')"
      by (auto split: if_splits)
    from "5.IH"(3) [OF False lo r] show ?thesis .
  qed
next
  case (11 m a b ts p s n os gs)
  then show ?case by (auto split: option.splits)
next
  case (12 m a ts p s n os gs)
  then show ?case by (auto split: option.splits)
qed (auto split: if_splits)

lemma exec_at_imagePattern:
  assumes "exec_at imagePattern p s = Some (n, gs)"
  shows "0 < n \<and> n \<le> length s"
proof -
  from assms obtain raw where
    r: "rx False (toks imagePattern) p s 0 [] [] = Some (n, raw)"
    by (auto simp: exec_at_def imagePattern_def)
  from rx_bounds [OF r] have le: "n \<le> length s" by simp
  from r obtain c s' where s: "s = c # s'"
    by (cases s) (simp_all add: imagePattern_def lit_def)
  from r s have "rx False (tl (toks imagePattern)) (Some c) s' (Suc 0) [] [] = Some (n, raw)"
    by (simp add: imagePattern_def lit_def split: if_splits)
  from rx_bounds [OF this] have "0 < n" by simp
  with le show ?thesis by simp
qed

lemma search_imagePattern:
  "search imagePattern p s = Some (i, n, gs) \<Longrightarrow> 0 < n \<and> i + n \<le> length s"
proof (induction s arbitrary: p i)
  case Nil
  then show ?case by (auto dest: exec_at_imagePattern)
next
  case (Cons c s)
  show ?case
  proof (cases "exec_at imagePattern p (c # s)")
    case None
    with Cons.prems obtain j where j: "search imagePattern (Some c) s = Some (j, n, gs)" "i = Suc j"
      by auto
    from Cons.IH [OF j(1)] j(2) show ?thesis by simp
  next
    case (Some m)
    with Cons.prems have "exec_at imagePattern p (c # s) = Some (n, gs)" "i = 0"
      by (auto split: prod.splits)
    with exec_at_imagePattern [of p "c # s" n gs] show ?thesis by simp
  qed
qed

termination imageRefs
proof (relation "measure (\<lambda>(lastIndex, p, s). length s)")
  fix lastIndex :: nat and p s x2 i y n gs
  assume "search imagePattern p s = Some x2" "(i, y) = x2" "(n, gs) = y"
  then have "search imagePattern p s = Some (i, n, gs)" by simp
  from search_imagePattern [OF this]
  show "((lastIndex + i + n, Some (last (take (i + n) s)), drop (i + n) s), lastIndex, p, s)
        \<in> measure (\<lambda>(lastIndex, p, s). length s)"
    by simp arith
qed simp

declare imageRefs.simps [simp del]

lemma exec_at_bound: "exec_at re p s = Some (n, gs) \<Longrightarrow> n \<le> length s"
  using rx_bounds [of "multiline re" "toks re" p s 0 "[]" "[]" n]
  by (auto simp: exec_at_def)

lemma search_bound: "search re p s = Some (i, n, gs) \<Longrightarrow> i + n \<le> length s"
proof (induction s arbitrary: p i)
  case Nil
  then show ?case by (auto dest: exec_at_bound)
next
  case (Cons c s)
  show ?case
  proof (cases "exec_at re p (c # s)")
    case None
    with Cons.prems obtain j where j: "search re (Some c) s = Some (j, n, gs)" "i = Suc j"
      by auto
    from Cons.IH [OF j(1)] j(2) show ?thesis by simp
  next
    case (Some m)
    with Cons.prems have "exec_at re p (c # s) = Some (n, gs)" "i = 0"
      by (auto split: prod.splits)
    with exec_at_bound [of re p "c # s" n gs] show ?thesis by simp
  qed
qed

lemma replaceWith_no_match:
  "search re p s = None \<Longrightarrow> replaceWith re f st p s = (s, st)"
  by (induction s arbitrary: p) (auto split: option.splits)

lemma replaceWith_first_match:
  assumes "search re p s = Some (i, n, gs)" and "0 < n"
  shows "replaceWith re f st p s =
     (case f (take n (drop i s)) gs st of (rep, st') \<Rightarrow>
        case replaceWith re f st' (Some (last (take (i + n) s))) (drop (i + n) s) of
          (out, st'') \<Rightarrow> (take i s @ rep @ out, st''))"
  using assms
proof (induction s arbitrary: p i)
  case Nil
  from search_bound [OF Nil.prems(1)] Nil.prems(2) show ?case by simp
next
  case (Cons c s)
  show ?case
  proof (cases "exec_at re p (c # s)")
    case None
    with Cons.prems obtain j where j: "search re (Some c) s = Some (j, n, gs)" "i = Suc j"
      by auto
    from search_bound [OF j(1)] Cons.prems(2) have "take (j + n) s \<noteq> []"
      by (cases s) auto
    with Cons.prems(2) have l: "last (take (i + n) (c # s)) = last (take (j + n) s)"
      by (simp add: j(2))
    from Cons.IH [OF j(1) Cons.prems(2)] None show ?thesis
      unfolding l by (simp add: j(2) split: prod.splits)
  next
    case (Some m)
    with Cons.prems have e: "exec_at re p (c # s) = Some (n, gs)" "i = 0"
      by (auto split: prod.splits)
    with Cons.prems(2) show ?thesis
      by (simp split: prod.splits)
  qed
qed

lemma imageRefs_none: "search imagePattern p s = None \<Longrightarrow> imageRefs off p s = []"
  by (simp add: imageRefs.simps [of off p s])

lemma imageRefs_some:
  "search imagePattern p s = Some (j, n, gs) \<Longrightarrow>
   imageRefs off p s =
     (off + j, n, gs) # imageRefs (off + j + n) (Some (last (take (j + n) s))) (drop (j + n) s)"
  by (simp add: imageRefs.simps [of off p s])

lemma imageRefs_range:
  "(start, len, gs) \<in> set (imageRefs off p s) \<Longrightarrow> off \<le> start \<and> start + len \<le> off + length s"
proof (induction off p s rule: imageRefs.induct)
  case (1 off p s)
  show ?case
  proof (cases "search imagePattern p s")
    case None
    with "1.prems" show ?thesis by (simp add: imageRefs_none)
  next
    case (Some m)
    obtain j n gs' where m: "m = (j, n, gs')" by (cases m) auto
    note f = Some [unfolded m]
    from search_imagePattern [OF f] have b: "0 < n" "j + n \<le> length s" by simp_all
    from "1.prems" imageRefs_some [OF f, of off]
    consider "(start, len, gs) = (off + j, n, gs')"
      | "(start, len, gs) \<in> set (imageRefs (off + j + n) (Some (last (take (j + n) s)))
                                   (drop (j + n) s))"
      by auto
    then show ?thesis
    proof cases
      case 1
      with b show ?thesis by simp
    next
      case 2
      from "1.IH" [OF f refl refl 2] b show ?thesis by simp
    qed
  qed
qed

lemma replace_at_index:
  "replaceWith imagePattern (replaceCallback (int i) img) (k, r) p s =
     (if k \<le> i \<and> i < k + length (imageRefs off p s)
      then (case imageRefs off p s ! (i - k) of (start, len, gs) \<Rightarrow>
              (take (start - off) s @ imageMarkdown img (grp gs 0) @ drop (start - off + len) s,
               (k + length (imageRefs off p s), True)))
      else (s, (k + length (imageRefs off p s), r)))"
proof (induction off p s arbitrary: k r rule: imageRefs.induct)
  case (1 off p s)
  show ?case
  proof (cases "search imagePattern p s")
    case None
    then show ?thesis by (auto simp: imageRefs_none replaceWith_no_match)
  next
    case (Some m)
    obtain j n gs where m: "m = (j, n, gs)" by (cases m) auto
    note f = Some [unfolded m]
    from search_imagePattern [OF f] have b: "0 < n" "j + n \<le> length s" by simp_all
    define s' where "s' = drop (j + n) s"
    define p' where "p' = Some (last (take (j + n) s))"
    define refs' where "refs' = imageRefs (off + j + n) p' s'"
    have refs: "imageRefs off p s = (off + j, n, gs) # refs'"
      unfolding refs'_def p'_def s'_def by (rule imageRefs_some [OF f])
    note IH = "1.IH" [OF f refl refl, folded p'_def s'_def, folded refs'_def]
    have rw: "replaceWith imagePattern (replaceCallback (int i) img) (k, r) p s =
        (case replaceCallback (int i) img (take n (drop j s)) gs (k, r) of (rep, st') \<Rightarrow>
           case replaceWith imagePattern (replaceCallback (int i) img) st' p' s' of
             (out, st'') \<Rightarrow> (take j s @ rep @ out, st''))"
      unfolding p'_def s'_def by (rule replaceWith_first_match [OF f b(1)])
    have whole: "take j s @ take n (drop j s) @ s' = s"
      unfolding s'_def by (metis append.assoc append_take_drop_id take_add)
    show ?thesis
    proof (cases "k = i")
      case True
      have "replaceWith imagePattern (replaceCallback (int i) img) (Suc i, True) p' s'
            = (s', (Suc i + length refs', True))"
        by (simp add: IH [of "Suc i" True])
      with True show ?thesis
        unfolding rw refs by (simp add: replaceCallback_def s'_def)
    next
      case ne: False
      show ?thesis
      proof (cases "Suc k \<le> i \<and> i < Suc k + length refs'")
        case True
        obtain start len gs' where e: "refs' ! (i - Suc k) = (start, len, gs')"
          by (cases "refs' ! (i - Suc k)") auto
        from True have "i - Suc k < length refs'" by arith
        then have "refs' ! (i - Suc k) \<in> set refs'" by (rule nth_mem)
        with e have "(start, len, gs') \<in> set (imageRefs (off + j + n) p' s')"
          by (simp add: refs'_def)
        from imageRefs_range [OF this] have ge: "off + j + n \<le> start" by simp
        define d where "d = start - (off + j + n)"
        from ge have st: "start - off = j + n + d" by (simp add: d_def)
        have pre: "take j s @ take n (drop j s) @ take d s' = take (j + n + d) s"
          unfolding s'_def by (simp add: take_add)
        have post: "drop (d + len) s' = drop (j + n + d + len) s"
          unfolding s'_def by (simp add: add.commute add.left_commute)
        from True have ik: "i - k = Suc (i - Suc k)" by arith
        have nth: "((off + j, n, gs) # refs') ! (i - k) = refs' ! (i - Suc k)"
          unfolding ik by simp
        have "replaceWith imagePattern (replaceCallback (int i) img) (Suc k, r) p' s'
            = (take d s' @ imageMarkdown img (grp gs' 0) @ drop (d + len) s',
               (Suc k + length refs', True))"
          using True e by (simp add: IH [of "Suc k" r] d_def)
        with ne True show ?thesis
          unfolding rw refs nth e
          by (simp add: replaceCallback_def st pre [symmetric] post)
      next
        case False
        then have "replaceWith imagePattern (replaceCallback (int i) img) (Suc k, r) p' s'
            = (s', (Suc k + length refs', r))"
          unfolding IH [of "Suc k" r] by (rule if_not_P)
        moreover from ne False have "\<not> (k \<le> i \<and> i < k + length ((off + j, n, gs) # refs'))"
          by auto
        ultimately show ?thesis
          using ne unfolding rw refs by (auto simp: replaceCallback_def whole)
      qed
    qed
  qed
qed

lemma rx_Rep:
  "rx m (Rep A lo None # ts) p s n os gs = Some r \<Longrightarrow>
   \<exists>k p'. k \<le> length s \<and> lo \<le> k \<and> set (take k s) \<subseteq> A
       \<and> rx m ts p' (drop k s) (n + k) os gs = Some r"
proof (induction s arbitrary: p n lo)
  case Nil
  then have "lo = 0" and "rx m ts p [] n os gs = Some r"
    by (simp_all split: if_splits)
  then have "0 \<le> length ([] :: string) \<and> lo \<le> 0 \<and> set (take 0 ([] :: string)) \<subseteq> A
       \<and> rx m ts p (drop 0 []) (n + 0) os gs = Some r"
    by simp
  then show ?case by blast
next
  case (Cons c s)
  have stay: "\<exists>k p'. k \<le> length (c # s) \<and> lo \<le> k \<and> set (take k (c # s)) \<subseteq> A
       \<and> rx m ts p' (drop k (c # s)) (n + k) os gs = Some r"
    if "lo = 0" and "rx m ts p (c # s) n os gs = Some r"
  proof -
    from that have "0 \<le> length (c # s) \<and> lo \<le> 0 \<and> set (take 0 (c # s)) \<subseteq> A
       \<and> rx m ts p (drop 0 (c # s)) (n + 0) os gs = Some r"
      by simp
    then show ?thesis by blast
  qed
  show ?case
  proof (cases "c \<in> A")
    case False
    with Cons.prems have "lo = 0" and "rx m ts p (c # s) n os gs = Some r"
      by (simp_all split: if_splits)
    then show ?thesis by (rule stay)
  next
    case True
    show ?thesis
    proof (cases "rx m (Rep A (lo - 1) None # ts) (Some c) s (Suc n) os gs")
      case None
      with True Cons.prems have "lo = 0" and "rx m ts p (c # s) n os gs = Some r"
        by (simp_all split: if_splits)
      then show ?thesis by (rule stay)
    next
      case (Some r')
      with True Cons.prems have "rx m (Rep A (lo - 1) None # ts) (Some c) s (Suc n) os gs = Some r"
        by simp
      from Cons.IH [OF this] obtain k p' where
        k: "k \<le> length s" "lo - 1 \<le> k" "set (take k s) \<subseteq> A"
           "rx m ts p' (drop k s) (Suc n + k) os gs = Some r"
        by blast
      with True have "Suc k \<le> length (c # s) \<and> lo \<le> Suc k \<and> set (take (Suc k) (c # s)) \<subseteq> A
         \<and> rx m ts p' (drop (Suc k) (c # s)) (n + Suc k) os gs = Some r"
        by simp
      then show ?thesis by blast
    qed
  qed
qed

lemma rx_Ch:
  "rx m (Ch A # ts) p s n os gs = Some r \<Longrightarrow>
   \<exists>c s'. s = c # s' \<and> c \<in> A \<and> rx m ts (Some c) s' (Suc n) os gs = Some r"
  by (cases s) (simp_all split: if_splits)

lemma exec_at_imagePattern_shape:
  assumes "exec_at imagePattern p s = Some (n, gs)"
  shows "\<exists>alt url. gs = [alt, url] \<and> url \<noteq> [] \<and> n = 5 + length alt + length url
           \<and> take n s = ''!['' @ alt @ '']('' @ url @ '')''"
proof -
  from assms obtain raw where
    r: "rx False (toks imagePattern) p s 0 [] [] = Some (n, raw)"
    and g: "gs = map (\<lambda>(b, e). take (e - b) (drop b s)) raw"
    by (auto simp: exec_at_def imagePattern_def)
  from r have "rx False (Ch {CHR ''!''} # Ch {CHR ''[''} # Open # Rep (- {CHR '']''}) 0 None
      # Close # Ch {CHR '']''} # Ch {CHR ''(''} # Open # Rep (- {CHR '')''}) 1 None # Close
      # Ch {CHR '')''} # []) p s 0 [] [] = Some (n, raw)"
    by (simp add: imagePattern_def lit_def)
  from rx_Ch [OF this] obtain s0 where
    s0: "s = CHR ''!'' # s0"
    and r0: "rx False (Ch {CHR ''[''} # Open # Rep (- {CHR '']''}) 0 None
      # Close # Ch {CHR '']''} # Ch {CHR ''(''} # Open # Rep (- {CHR '')''}) 1 None # Close
      # Ch {CHR '')''} # []) (Some (CHR ''!'')) s0 (Suc 0) [] [] = Some (n, raw)"
    by auto
  from rx_Ch [OF r0] obtain s1 where
    s1: "s0 = CHR ''['' # s1"
    and r1: "rx False (Rep (- {CHR '']''}) 0 None
      # Close # Ch {CHR '']''} # Ch {CHR ''(''} # Open # Rep (- {CHR '')''}) 1 None # Close
      # Ch {CHR '')''} # []) (Some (CHR ''['')) s1 (Suc (Suc 0)) [Suc (Suc 0)] [] = Some (n, raw)"
    by auto
  from rx_Rep [OF r1] obtain k1 p1 where
    k1: "k1 \<le> length s1"
    and r2: "rx False (Ch {CHR '']''} # Ch {CHR ''(''} # Open # Rep (- {CHR '')''}) 1 None # Close
      # Ch {CHR '')''} # []) p1 (drop k1 s1) (Suc (Suc k1)) [] [(Suc (Suc 0), Suc (Suc k1))]
      = Some (n, raw)"
    by auto
  from rx_Ch [OF r2] obtain s2 where
    s2: "drop k1 s1 = CHR '']'' # s2"
    and r3: "rx False (Ch {CHR ''(''} # Open # Rep (- {CHR '')''}) 1 None # Close
      # Ch {CHR '')''} # []) (Some (CHR '']'')) s2 (Suc (Suc (Suc k1))) []
         [(Suc (Suc 0), Suc (Suc k1))] = Some (n, raw)"
    by auto
  from rx_Ch [OF r3] obtain s3 where
    s3: "s2 = CHR ''('' # s3"
    and r4: "rx False (Rep (- {CHR '')''}) 1 None # Close
      # Ch {CHR '')''} # []) (Some (CHR ''('')) s3 (Suc (Suc (Suc (Suc k1))))
         [Suc (Suc (Suc (Suc k1)))] [(Suc (Suc 0), Suc (Suc k1))] = Some (n, raw)"
    by auto
  from rx_Rep [OF r4] obtain k2 p2 where
    k2: "k2 \<le> length s3" "1 \<le> k2"
    and r5: "rx False (Ch {CHR '')''} # []) p2 (drop k2 s3) (Suc (Suc (Suc (Suc (k1 + k2))))) []
               [(Suc (Suc 0), Suc (Suc k1)),
                (Suc (Suc (Suc (Suc k1))), Suc (Suc (Suc (Suc (k1 + k2)))))] = Some (n, raw)"
    by auto
  from rx_Ch [OF r5] obtain s4 where
    s4: "drop k2 s3 = CHR '')'' # s4"
    and n: "n = 5 + k1 + k2" and raw: "raw = [(2, 2 + k1), (4 + k1, 4 + k1 + k2)]"
    by auto
  have a1: "s1 = take k1 s1 @ CHR '']'' # CHR ''('' # s3"
    using s2 s3 by (metis append_take_drop_id)
  have a3: "s3 = take k2 s3 @ CHR '')'' # s4"
    using s4 by (metis append_take_drop_id)
  define alt where "alt = take k1 s1"
  define url where "url = take k2 s3"
  have la: "length alt = k1" and lu: "length url = k2"
    using k1 k2 by (simp_all add: alt_def url_def)
  have s: "s = ''!['' @ alt @ '']('' @ url @ '')'' @ s4"
    using s0 s1 a1 a3 by (simp add: alt_def url_def)
  have "s = (''!['' @ alt @ '']('') @ (url @ '')'' @ s4)"
    by (simp add: s)
  moreover have "length (''!['' @ alt @ '']('') = 4 + length alt"
    by simp
  ultimately have d2: "drop (4 + length alt) s = url @ '')'' @ s4"
    by (metis append_eq_conv_conj)
  have d1: "drop 2 s = alt @ '']('' @ url @ '')'' @ s4"
    by (simp add: s)
  have "gs = [alt, url]"
    unfolding g raw by (simp add: d1 d2 la [symmetric] lu [symmetric])
  moreover have "url \<noteq> []" using lu k2 by auto
  moreover have "n = 5 + length alt + length url" by (simp add: n la lu)
  moreover have "take n s = ''!['' @ alt @ '']('' @ url @ '')''"
  proof -
    have "s = (''!['' @ alt @ '']('' @ url @ '')'') @ s4"
      by (simp add: s)
    moreover have "length (''!['' @ alt @ '']('' @ url @ '')'') = n"
      by (simp add: n la lu)
    ultimately show ?thesis
      by (metis append_eq_conv_conj)
  qed
  ultimately show ?thesis by blast
qed

lemma search_imagePattern_shape:
  "search imagePattern p s = Some (i, n, gs) \<Longrightarrow>
   \<exists>alt url. gs = [alt, url] \<and> url \<noteq> [] \<and> take n (drop i s) = ''!['' @ alt @ '']('' @ url @ '')''"
proof (induction s arbitrary: p i)
  case Nil
  then have "exec_at imagePattern p [] = Some (n, gs)" and "i = 0" by auto
  with exec_at_imagePattern_shape [of p "[]" n gs] show ?case by auto
next
  case (Cons c s)
  show ?case
  proof (cases "exec_at imagePattern p (c # s)")
    case None
    with Cons.prems obtain j where j: "search imagePattern (Some c) s = Some (j, n, gs)" "i = Suc j"
      by auto
    from Cons.IH [OF j(1)] j(2) show ?thesis by simp
  next
    case (Some m)
    with Cons.prems have "exec_at imagePattern p (c # s) = Some (n, gs)" "i = 0"
      by (auto split: prod.splits)
    with exec_at_imagePattern_shape [of p "c # s" n gs] show ?thesis by auto
  qed
qed

lemma imageRefs_shape:
  "(start, len, gs) \<in> set (imageRefs off p s) \<Longrightarrow>
   \<exists>alt url. gs = [alt, url] \<and> url \<noteq> []
      \<and> take len (drop (start - off) s) = ''!['' @ alt @ '']('' @ url @ '')''"
proof (induction off p s rule: imageRefs.induct)
  case (1 off p s)
  show ?case
  proof (cases "search imagePattern p s")
    case None
    with "1.prems" show ?thesis by (simp add: imageRefs_none)
  next
    case (Some m)
    obtain j n gs' where m: "m = (j, n, gs')" by (cases m) auto
    note f = Some [unfolded m]
    from search_imagePattern [OF f] have b: "0 < n" "j + n \<le> length s" by simp_all
    from "1.prems" imageRefs_some [OF f, of off]
    consider "(start, len, gs) = (off + j, n, gs')"
      | "(start, len, gs) \<in> set (imageRefs (off + j + n) (Some (last (take (j + n) s)))
                                   (drop (j + n) s))"
      by auto
    then show ?thesis
    proof cases
      case 1
      with search_imagePattern_shape [OF f] show ?thesis by simp
    next
      case 2
      from imageRefs_range [OF 2] have ge: "off + j + n \<le> start" by simp
      then have "drop (start - (off + j + n)) (drop (j + n) s) = drop (start - off) s"
        by simp
      with "1.IH" [OF f refl refl 2] show ?thesis by simp
    qed
  qed
qed

lemma imageRefs_ordered:
  "j < k \<Longrightarrow> k < length (imageRefs off p s) \<Longrightarrow>
   fst (imageRefs off p s ! j) + fst (snd (imageRefs off p s ! j)) \<le> fst (imageRefs off p s ! k)"
proof (induction off p s arbitrary: j k rule: imageRefs.induct)
  case (1 off p s)
  show ?case
  proof (cases "search imagePattern p s")
    case None
    with "1.prems" show ?thesis by (simp add: imageRefs_none)
  next
    case (Some m)
    obtain i n gs where m: "m = (i, n, gs)" by (cases m) auto
    note f = Some [unfolded m]
    define refs' where "refs' = imageRefs (off + i + n) (Some (last (take (i + n) s))) (drop (i + n) s)"
    have refs: "imageRefs off p s = (off + i, n, gs) # refs'"
      unfolding refs'_def by (rule imageRefs_some [OF f])
    from "1.prems" obtain k' where k': "k = Suc k'" "k' < length refs'"
      unfolding refs by (cases k) auto
    show ?thesis
    proof (cases j)
      case 0
      from k'(2) have "refs' ! k' \<in> set refs'" by (rule nth_mem)
      then have "(fst (refs' ! k'), fst (snd (refs' ! k')), snd (snd (refs' ! k')))
          \<in> set (imageRefs (off + i + n) (Some (last (take (i + n) s))) (drop (i + n) s))"
        by (simp add: refs'_def)
      from imageRefs_range [OF this] have "off + i + n \<le> fst (refs' ! k')" by simp
      with 0 k' show ?thesis unfolding refs by simp
    next
      case (Suc j')
      with "1.prems"(1) k' have "j' < k'" by simp
      from "1.IH" [OF f refl refl this, folded refs'_def, OF k'(2)] Suc k'
      show ?thesis unfolding refs by simp
    qed
  qed
qed

text \<open>
  C9. Let the image references of a stored blog be the matches of the image pattern in its
  content, in reading order, each with the place where it starts, its length and its two
  groups. For a blog that exists, a new image with a URL and an index i that is not negative:
  when there are more than i references, the i-th one is the text "![" alt "](" url ")" at its
  place, the references before it end before that place and the references after it start
  after its end, and the handler answers 200 and stores the content in which this text, and
  nothing else, is replaced by "![" description "](" new URL ")" (the description of the new
  image, else its alt_description, else the old alt text), everything before and after it
  being kept as it is; when there are at most i references it answers 400 with the index and
  the number of references in its message, and the store is unchanged.
\<close>

theorem replace_image_at_index:
  assumes "getBlog st ident = Some blog" and "img_url img \<noteq> []" and "0 \<le> i"
  shows "(nat i < length (imageRefs 0 None (content blog)) \<longrightarrow>
           (case imageRefs 0 None (content blog) ! nat i of (start, len, gs) \<Rightarrow>
              take len (drop start (content blog)) = ''!['' @ grp gs 0 @ '']('' @ grp gs 1 @ '')''
            \<and> (\<forall>j < nat i. fst (imageRefs 0 None (content blog) ! j)
                    + fst (snd (imageRefs 0 None (content blog) ! j)) \<le> start)
            \<and> (\<forall>j. nat i < j \<and> j < length (imageRefs 0 None (content blog))
                    \<longrightarrow> start + len \<le> fst (imageRefs 0 None (content blog) ! j))
            \<and> updateBlogImage unsafe st ident (Some i) (Some img) =
                (\<lparr>http_status = 200,
                  body = BlogBody (blog\<lparr>content := take start (content blog)
                    @ ''!['' @ (if img_description img \<noteq> [] then img_description img
                                else if img_alt_description img \<noteq> [] then img_alt_description img
                                else grp gs 0)
                    @ '']('' @ img_url img @ '')'' @ drop (start + len) (content blog)\<rparr>)\<rparr>,
                 st\<lparr>blogs := (blogs st)(ident \<mapsto> blog\<lparr>content := take start (content blog)
                    @ ''!['' @ (if img_description img \<noteq> [] then img_description img
                                else if img_alt_description img \<noteq> [] then img_alt_description img
                                else grp gs 0)
                    @ '']('' @ img_url img @ '')'' @ drop (start + len) (content blog)\<rparr>)\<rparr>,
                 [ScheduleSourceBackup])))
       \<and> (length (imageRefs 0 None (content blog)) \<le> nat i \<longrightarrow>
           updateBlogImage unsafe st ident (Some i) (Some img) =
             (\<lparr>http_status = 400,
               body = ErrorBody (''Image index '' @ numberToString unsafe i
                        @ '' not found in content. Total images: ''
                        @ show_nat (length (imageRefs 0 None (content blog)))) None False\<rparr>,
              st, []))"
proof -
  from assms(3) have i: "int (nat i) = i" by simp
  note r = replace_at_index [of "nat i" img 0 False None "content blog" 0, unfolded i]
  from assms(1) have b: "blogs st ident = Some blog" by (simp add: getBlog_def)
  show ?thesis
  proof (intro conjI impI)
    assume lt: "nat i < length (imageRefs 0 None (content blog))"
    obtain start len gs where e: "imageRefs 0 None (content blog) ! nat i = (start, len, gs)"
      by (cases "imageRefs 0 None (content blog) ! nat i") auto
    from lt have "imageRefs 0 None (content blog) ! nat i \<in> set (imageRefs 0 None (content blog))"
      by (rule nth_mem)
    then have "(start, len, gs) \<in> set (imageRefs 0 None (content blog))"
      by (simp add: e)
    from imageRefs_shape [OF this]
    have shape: "take len (drop start (content blog)) = ''!['' @ grp gs 0 @ '']('' @ grp gs 1 @ '')''"
      by (auto simp: grp_def)
    have before: "\<forall>j < nat i. fst (imageRefs 0 None (content blog) ! j)
                    + fst (snd (imageRefs 0 None (content blog) ! j)) \<le> start"
      using imageRefs_ordered [where k = "nat i" and off = 0 and p = None and s = "content blog"] lt
      by (simp add: e)
    have after: "\<forall>j. nat i < j \<and> j < length (imageRefs 0 None (content blog))
                    \<longrightarrow> start + len \<le> fst (imageRefs 0 None (content blog) ! j)"
      using imageRefs_ordered [where j = "nat i" and off = 0 and p = None and s = "content blog"]
      by (simp add: e)
    from lt e have "replaceWith imagePattern (replaceCallback i img) (0, False) None (content blog)
        = (take start (content blog) @ imageMarkdown img (grp gs 0)
             @ drop (start + len) (content blog),
           (length (imageRefs 0 None (content blog)), True))"
      by (simp add: r)
    with assms b have "updateBlogImage unsafe st ident (Some i) (Some img) =
                (\<lparr>http_status = 200,
                  body = BlogBody (blog\<lparr>content := take start (content blog)
                    @ ''!['' @ (if img_description img \<noteq> [] then img_description img
                                else if img_alt_description img \<noteq> [] then img_alt_description img
                                else grp gs 0)
                    @ '']('' @ img_url img @ '')'' @ drop (start + len) (content blog)\<rparr>)\<rparr>,
                 st\<lparr>blogs := (blogs st)(ident \<mapsto> blog\<lparr>content := take start (content blog)
                    @ ''!['' @ (if img_description img \<noteq> [] then img_description img
                                else if img_alt_description img \<noteq> [] then img_alt_description img
                                else grp gs 0)
                    @ '']('' @ img_url img @ '')'' @ drop (start + len) (content blog)\<rparr>)\<rparr>,
                 [ScheduleSourceBackup])"
      by (simp add: updateBlogImage_def updateBlog_def Let_def imageMarkdown_def)
    with shape before after
    show "case imageRefs 0 None (content blog) ! nat i of (start, len, gs) \<Rightarrow>
              take len (drop start (content blog)) = ''!['' @ grp gs 0 @ '']('' @ grp gs 1 @ '')''
            \<and> (\<forall>j < nat i. fst (imageRefs 0 None (content blog) ! j)
                    + fst (snd (imageRefs 0 None (content blog) ! j)) \<le> start)
            \<and> (\<forall>j. nat i < j \<and> j < length (imageRefs 0 None (content blog))
                    \<longrightarrow> start + len \<le> fst (imageRefs 0 None (content blog) ! j))
            \<and> updateBlogImage unsafe st ident (Some i) (Some img) =
                (\<lparr>http_status = 200,
                  body = BlogBody (blog\<lparr>content := take start (content blog)
                    @ ''!['' @ (if img_description img \<noteq> [] then img_description img
                                else if img_alt_description img \<noteq> [] then img_alt_description img
                                else grp gs 0)
                    @ '']('' @ img_url img @ '')'' @ drop (start + len) (content blog)\<rparr>)\<rparr>,
                 st\<lparr>blogs := (blogs st)(ident \<mapsto> blog\<lparr>content := take start (content blog)
                    @ ''!['' @ (if img_description img \<noteq> [] then img_description img
                                else if img_alt_description img \<noteq> [] then img_alt_description img
                                else grp gs 0)
                    @ '']('' @ img_url img @ '')'' @ drop (start + len) (content blog)\<rparr>)\<rparr>,
                 [ScheduleSourceBackup])"
      unfolding e by (simp del: append.simps)
  next
    assume ge: "length (imageRefs 0 None (content blog)) \<le> nat i"
    then have "replaceWith imagePattern (replaceCallback i img) (0, False) None (content blog)
        = (content blog, (length (imageRefs 0 None (content blog)), False))"
      by (simp add: r)
    with assms show "updateBlogImage unsafe st ident (Some i) (Some img) =
             (\<lparr>http_status = 400,
               body = ErrorBody (''Image index '' @ numberToString unsafe i
                        @ '' not found in content. Total images: ''
                        @ show_nat (length (imageRefs 0 None (content blog)))) None False\<rparr>,
              st, [])"
      by (simp add: updateBlogImage_def)
  qed
qed

lemma gallery_refs:
  "imageRefs 0 None (content galleryBlog) =
     [(6, 39, [''first cup'', ''https://img.example/1.png'']),
      (53, 40, [''second cup'', ''https://img.example/2.png''])]"
  by code_simp

theorem replace_image_at_index_witness:
  "updateBlogImage (\<lambda>n. ''1e+21'') galleryStorage ''g1'' (Some 1) (Some teapot) =
     (\<lparr>http_status = 200,
       body = BlogBody (galleryBlog\<lparr>content :=
         ''Intro ![first cup](https://img.example/1.png) middle ![a teapot](https://img.example/pot.png) end.''\<rparr>)\<rparr>,
      galleryStorage\<lparr>blogs := (blogs galleryStorage)(''g1'' \<mapsto> galleryBlog\<lparr>content :=
         ''Intro ![first cup](https://img.example/1.png) middle ![a teapot](https://img.example/pot.png) end.''\<rparr>)\<rparr>,
      [ScheduleSourceBackup])
   \<and> updateBlogImage (\<lambda>n. ''1e+21'') galleryStorage ''g1'' (Some 2) (Some teapot) =
       (\<lparr>http_status = 400,
         body = ErrorBody ''Image index 2 not found in content. Total images: 2'' None False\<rparr>,
        galleryStorage, [])
   \<and> updateBlogImage (\<lambda>n. ''1e+21'') galleryStorage ''g1'' (Some 1000000000000000000000)
         (Some teapot) =
       (\<lparr>http_status = 400,
         body = ErrorBody ''Image index 1e+21 not found in content. Total images: 2'' None False\<rparr>,
        galleryStorage, [])"
proof -
  have b: "getBlog galleryStorage ''g1'' = Some galleryBlog"
    by (simp add: getBlog_def galleryStorage_def)
  have u: "img_url teapot \<noteq> []"
    by (simp add: teapot_def)
  have c: "take 53 (content galleryBlog) @ ''!['' @ img_description teapot @ '']('' @ img_url teapot
             @ '')'' @ drop 93 (content galleryBlog)
           = ''Intro ![first cup](https://img.example/1.png) middle ![a teapot](https://img.example/pot.png) end.''"
    by code_simp
  have d: "img_description teapot \<noteq> []"
    by (simp add: teapot_def)
  have n: "numberToString unsafe 2 = ''2''" for unsafe
    by (simp add: numberToString_def MAX_SAFE_INTEGER_def decimal_small)
  have e: "numberToString (\<lambda>n. ''1e+21'') 1000000000000000000000 = ''1e+21''"
    by (simp add: numberToString_def MAX_SAFE_INTEGER_def)
  have t: "show_nat (Suc (Suc 0)) = ''2''"
    by code_simp
  from replace_image_at_index [OF b u, of 1 "\<lambda>n. ''1e+21''"]
    replace_image_at_index [OF b u, of 2 "\<lambda>n. ''1e+21''"]
    replace_image_at_index [OF b u, of 1000000000000000000000 "\<lambda>n. ''1e+21''"]
  show ?thesis
    using c by (simp add: gallery_refs d n e t)
qed

end
